theory Spec2Isabelle
  imports Complex_Main "HOL-Library.Multiset"
begin

section \<open>JavaScript numbers and the metrics helpers\<close>

text \<open>
  A JavaScript number is an IEEE 754 double. A finite double is modelled by the rational
  it denotes; the two infinities and NaN are values of their own. The sign of zero is
  dropped: the helpers below never produce a negative zero.
\<close>

datatype number = Num rat | PosInf | NegInf | NaN

text \<open>Rounding a rational to the nearest integer, ties to the even one.\<close>

definition round_half_even :: "rat \<Rightarrow> int" where
  "round_half_even r =
     (let f = \<lfloor>r\<rfloor>; d = r - of_int f
      in if d < 1 / 2 then f else if 1 / 2 < d then f + 1 else if even f then f else f + 1)"

text \<open>The number of binary digits of a natural number.\<close>

fun bits :: "nat \<Rightarrow> nat" where
  "bits n = (if n = 0 then 0 else Suc (bits (n div 2)))"

declare bits.simps [simp del]

text \<open>The binary exponent of a positive rational: \<open>2 ^ e \<le> a < 2 ^ (e + 1)\<close>.\<close>

definition ilog2 :: "rat \<Rightarrow> int" where
  "ilog2 a = (if 1 \<le> a then int (bits (nat \<lfloor>a\<rfloor>)) - 1
              else - int (bits (nat (\<lceil>1 / a\<rceil> - 1))))"

text \<open>
  The result of an arithmetic operation whose exact value is \<open>x\<close>: the nearest double,
  ties to even. A double has 53 significant bits from \<open>2 ^ - 1022\<close> on, is a multiple of
  \<open>2 ^ - 1074\<close> below, and a value that rounds to \<open>2 ^ 1024\<close> or more is an infinity.
\<close>

definition round_double :: "rat \<Rightarrow> number" where
  "round_double x =
     (if x = 0 then Num 0
      else
        (let a = \<bar>x\<bar>; e = ilog2 a
         in if e < - 1022 then Num (sgn x * of_int (round_half_even (a * 2 ^ 1074)) / 2 ^ 1074)
            else
              (let m = round_half_even (a * power_int 2 (52 - e))
               in if 1023 < e \<or> (e = 1023 \<and> m = 2 ^ 53)
                  then (if 0 < x then PosInf else NegInf)
                  else Num (sgn x * of_int m * power_int 2 (e - 52)))))"

text \<open>The operators \<open>/\<close>, \<open>*\<close> and \<open>> 0\<close> on numbers, and \<open>Math.round\<close>, which rounds to the
  nearest integer with ties going up and keeps an infinity or NaN.\<close>

fun js_div :: "number \<Rightarrow> number \<Rightarrow> number" where
  "js_div NaN _ = NaN"
| "js_div _ NaN = NaN"
| "js_div (Num a) (Num b) =
     (if b = 0 then (if a = 0 then NaN else if 0 < a then PosInf else NegInf)
      else round_double (a / b))"
| "js_div (Num a) _ = Num 0"
| "js_div PosInf (Num b) = (if 0 \<le> b then PosInf else NegInf)"
| "js_div NegInf (Num b) = (if 0 \<le> b then NegInf else PosInf)"
| "js_div _ _ = NaN"

fun js_mul :: "number \<Rightarrow> number \<Rightarrow> number" where
  "js_mul NaN _ = NaN"
| "js_mul _ NaN = NaN"
| "js_mul (Num a) (Num b) = round_double (a * b)"
| "js_mul (Num a) PosInf = (if a = 0 then NaN else if 0 < a then PosInf else NegInf)"
| "js_mul (Num a) NegInf = (if a = 0 then NaN else if 0 < a then NegInf else PosInf)"
| "js_mul PosInf (Num b) = (if b = 0 then NaN else if 0 < b then PosInf else NegInf)"
| "js_mul NegInf (Num b) = (if b = 0 then NaN else if 0 < b then NegInf else PosInf)"
| "js_mul PosInf PosInf = PosInf"
| "js_mul NegInf NegInf = PosInf"
| "js_mul _ _ = NegInf"

fun js_positive :: "number \<Rightarrow> bool" where
  "js_positive (Num a) = (0 < a)"
| "js_positive PosInf = True"
| "js_positive _ = False"

fun Math_round :: "number \<Rightarrow> number" where
  "Math_round (Num r) = Num (of_int \<lfloor>r + 1 / 2\<rfloor>)"
| "Math_round v = v"

text \<open>
  The component \<open>TypingFastCached\<close> (and its siblings \<open>TypingFast\<close>, \<open>TypingCanvas\<close>,
  \<open>TypingMonaco\<close>) computes words per minute with
  \<^verbatim>\<open>
  function calcWPM(charsCount, ms) {
    const words = charsCount / 5;
    const minutes = ms / 60000;
    return minutes > 0 ? Math.round(words / minutes) : 0;
  }
  \<close>
  Its arguments are integers (a string length and a difference of clock readings), which
  are doubles themselves as long as they are below \<open>2 ^ 53\<close> in magnitude.
\<close>

definition calcWPM :: "int \<Rightarrow> int \<Rightarrow> number" where
  "calcWPM charsCount ms =
     (let words = js_div (Num (of_int charsCount)) (Num 5);
          minutes = js_div (Num (of_int ms)) (Num 60000)
      in if js_positive minutes then Math_round (js_div words minutes) else Num 0)"

text \<open>
  The attempt record keeps \<open>wpm\<close> and \<open>accuracy\<close> as integers, which is what the two
  helpers return on the counts and durations of a session.
\<close>

fun int_of_number :: "number \<Rightarrow> int" where
  "int_of_number (Num r) = \<lfloor>r\<rfloor>"
| "int_of_number _ = 0"

section \<open>The typing engine of \<open>TypingFastCached\<close>\<close>

subsection \<open>Props, rendered spans, component state\<close>

text \<open>
  The props of the component: the problem (its id and its text, read as
  \<open>problem?.code ?? problem?.text ?? ""\<close>), the flag \<open>autoSubmit\<close>, and the ambient
  \<open>localStorage.getItem("nick")\<close> that \<open>finishIfNeeded\<close> reads.
\<close>

record props =
  problem_id :: string
  problem_text :: string
  autoSubmit :: bool
  nick :: "string option"

text \<open>
  \<open>const chars = [...text]\<close>: one entry per character, spaces and newlines kept. A
  character of the prompt, like the one-character string of a key, is a \<open>char\<close>.
\<close>

definition chars :: "props \<Rightarrow> char list" where
  "chars P = problem_text P"

text \<open>
  A rendered \<open>span\<close> element carries the engine's per-character verdict: the data attribute
  \<open>dataset.typedChar\<close> (absent while the position is untyped) and the two CSS classes
  \<open>correct\<close> and \<open>incorrect\<close> of its \<open>classList\<close>.
\<close>

record span =
  typedChar :: "char option"
  correct :: bool
  incorrect :: bool

definition blank :: span where
  "blank = \<lparr>typedChar = None, correct = False, incorrect = False\<rparr>"

text \<open>
  The render function gives a \<open>ref\<close> (an entry of \<open>spansRef.current\<close>) to every character
  except a newline, which is rendered as a block span without \<open>ref\<close>:
  \<^verbatim>\<open>
  {chars.map((c, i) => (
    c === "\n" ? (<span key={i} style=.../>)
               : (<span key={i} ref={(el) => { spansRef.current[i] = el; }} ...>{c}</span>)))}
  \<close>
  So \<open>spansRef.current\<close> is modelled as a list of optional spans, one per prompt index, with
  \<open>None\<close> where the array holds no element.
\<close>

definition render_spans :: "char list \<Rightarrow> span option list" where
  "render_spans cs = map (\<lambda>c. if c = CHR 0x0A then None else Some blank) cs"

text \<open>\<open>spansRef.current[idx]\<close>: reading outside the array gives \<open>undefined\<close>.\<close>

definition span_at :: "span option list \<Rightarrow> nat \<Rightarrow> span option" where
  "span_at ss i = (if i < length ss then ss ! i else None)"

text \<open>\<open>chars[idx]\<close>, with \<open>undefined\<close> outside the array.\<close>

definition char_at :: "char list \<Rightarrow> nat \<Rightarrow> char option" where
  "char_at cs i = (if i < length cs then Some (cs ! i) else None)"

text \<open>The attempt object built by \<open>finishIfNeeded\<close>.\<close>

record attempt =
  user :: string
  problemId :: string
  wpm :: int
  accuracy :: int
  rawText :: string
  durationMs :: int

text \<open>
  The state of one mounted component: the React state \<open>pos\<close> and \<open>report\<close>, the refs
  \<open>spansRef\<close>, \<open>startTsRef\<close> and \<open>finishedRef\<close>, and the two outputs of the engine, namely
  the attempt objects built so far (each one is handed to \<open>onFinish\<close>) and the bodies posted
  to \<open>/api/attempts\<close>. The report holds \<open>(wpm, accuracy, durationMs, rawText)\<close>.
\<close>

record state =
  pos :: nat
  spans :: "span option list"
  startTs :: "int option"
  finished :: bool
  report :: "(int \<times> int \<times> int \<times> string) option"
  built :: "attempt list"
  posted :: "attempt list"

text \<open>
  A \<open>keydown\<close> event, together with the two readings of \<open>Date.now()\<close> its handler can make:
  the one in \<open>handleKeyDown\<close> (start of the timer) and the one in \<open>finishIfNeeded\<close>.
\<close>

record key_event =
  key :: string
  ctrlKey :: bool
  metaKey :: bool
  now_down :: int
  now_finish :: int

text \<open>
  The state of the component after a reset, once a render has attached the spans of the
  prompt: every span is in \<open>spansRef.current\<close> and blank, the position is 0, there is no
  start timestamp and the session is not finished. (The state right after the mount is
  \<open>mounted\<close> below; \<open>init\<close> is reached from it by a key followed by Escape.)
\<close>

definition init :: "props \<Rightarrow> state" where
  "init P = \<lparr>pos = 0, spans = render_spans (chars P), startTs = None, finished = False,
             report = None, built = [], posted = []\<rparr>"

subsection \<open>Accuracy and the typed string\<close>

text \<open>
  \<^verbatim>\<open>
  function calcAccuracy(typedLen) {
    if (!typedLen) return 100;
    const correct = spansRef.current.reduce(
      (acc, s) => acc + (s && s.classList.contains("correct") ? 1 : 0), 0);
    return Math.round((correct / typedLen) * 100);
  }
  \<close>
\<close>

definition correctCount :: "span option list \<Rightarrow> nat" where
  "correctCount ss = length (filter (\<lambda>s. case s of None \<Rightarrow> False | Some sp \<Rightarrow> correct sp) ss)"

definition calcAccuracy :: "span option list \<Rightarrow> nat \<Rightarrow> number" where
  "calcAccuracy ss typedLen =
     (if typedLen = 0 then Num 100
      else Math_round
        (js_mul (js_div (Num (of_nat (correctCount ss))) (Num (of_nat typedLen))) (Num 100)))"

text \<open>
  \<open>spansRef.current.map((s) => (s && s.dataset.typedChar ? s.dataset.typedChar : "")).join("")\<close>
\<close>

definition typedStr :: "span option list \<Rightarrow> string" where
  "typedStr ss =
     concat (map (\<lambda>s. case s of None \<Rightarrow> []
                        | Some sp \<Rightarrow> (case typedChar sp of None \<Rightarrow> [] | Some c \<Rightarrow> [c])) ss)"

text \<open>The number of verdicts that are not untyped.\<close>

definition is_typed :: "span option \<Rightarrow> bool" where
  "is_typed s = (case s of None \<Rightarrow> False | Some sp \<Rightarrow> typedChar sp \<noteq> None)"


subsection \<open>Transitions\<close>

text \<open>
  \<open>pos\<close> is a constant of the render that created the handler
  (\<open>const [pos, setPos] = useState(0)\<close>): \<open>setPos\<close> only queues the next value, which the
  component sees at its next render, after the handler has returned. Every function below
  therefore takes the position of the render, \<open>rp\<close>, as an argument, and the field \<open>pos\<close> of
  the state it threads is the queued value: \<open>setPos(v)\<close> replaces it and
  \<open>setPos((p) => p + 1)\<close> increments it. The refs are mutable cells and change at once.

  \<^verbatim>\<open>
  function finishIfNeeded(now) {
    if (finishedRef.current) return;
    if (pos >= chars.length) {
      finishedRef.current = true;
      const endTs = now || Date.now();
      const durationMs = startTsRef.current ? endTs - startTsRef.current : 0;
      const typedStr = spansRef.current.map(...).join("");
      const wpm = calcWPM(typedStr.length, durationMs);
      const accuracy = calcAccuracy(typedStr.length);
      const attempt = { user: localStorage.getItem("nick") || "anon",
                        problemId: problem.id, wpm, accuracy, rawText: typedStr, durationMs };
      setReport({ wpm, accuracy, durationMs, rawText: typedStr });
      if (autoSubmit) { fetch("/api/attempts", { method: "POST", ... }) }
      if (onFinish) onFinish(attempt);
    }
  }
  \<close>
  Every call in the source passes no argument, so \<open>endTs\<close> is the clock reading.
\<close>

definition truthy_ts :: "int option \<Rightarrow> bool" where
  "truthy_ts t = (case t of None \<Rightarrow> False | Some v \<Rightarrow> v \<noteq> 0)"

definition current_user :: "props \<Rightarrow> string" where
  "current_user P = (case nick P of None \<Rightarrow> ''anon'' | Some n \<Rightarrow> if n = [] then ''anon'' else n)"

definition finishIfNeeded :: "props \<Rightarrow> nat \<Rightarrow> key_event \<Rightarrow> state \<Rightarrow> state" where
  "finishIfNeeded P rp e s =
     (if finished s then s
      else if rp \<ge> length (chars P) then
        (let endTs = now_finish e;
             dur = (if truthy_ts (startTs s) then endTs - the (startTs s) else 0);
             str = typedStr (spans s);
             w = int_of_number (calcWPM (int (length str)) dur);
             acc = int_of_number (calcAccuracy (spans s) (length str));
             a = \<lparr>user = current_user P, problemId = problem_id P, wpm = w, accuracy = acc,
                  rawText = str, durationMs = dur\<rparr>
         in s\<lparr>finished := True,
              report := Some (w, acc, dur, str),
              built := built s @ [a],
              posted := (if autoSubmit P then posted s @ [a] else posted s)\<rparr>)
      else s)"

text \<open>
  \<^verbatim>\<open>
  function writeChar(ch) {
    if (finishedRef.current) return;
    const idx = pos;
    const span = spansRef.current[idx];
    if (!span) {
      // beyond end
      setPos((p) => p + 1);
      finishIfNeeded();
      return;
    }
    span.dataset.typedChar = ch;
    const expected = chars[idx];
    if (ch === expected) { span.classList.add("correct"); span.classList.remove("incorrect"); }
    else { span.classList.add("incorrect"); span.classList.remove("correct"); }
    setPos(idx + 1);
    finishIfNeeded();
  }
  \<close>
\<close>

definition writeChar :: "props \<Rightarrow> nat \<Rightarrow> key_event \<Rightarrow> char \<Rightarrow> state \<Rightarrow> state" where
  "writeChar P rp e ch s =
     (if finished s then s
      else case span_at (spans s) rp of
        None \<Rightarrow> finishIfNeeded P rp e (s\<lparr>pos := pos s + 1\<rparr>)
      | Some sp \<Rightarrow>
          (let ok = (Some ch = char_at (chars P) rp);
               sp' = sp\<lparr>typedChar := Some ch, correct := ok, incorrect := \<not> ok\<rparr>
           in finishIfNeeded P rp e (s\<lparr>spans := (spans s)[rp := Some sp'], pos := rp + 1\<rparr>)))"

text \<open>
  \<^verbatim>\<open>
  function fullReset() {
    finishedRef.current = false;
    startTsRef.current = null;
    setPos(0);
    setReport(null);
    spansRef.current.forEach((s) => {
      if (!s) return;
      s.classList.remove("correct", "incorrect");
      delete s.dataset.typedChar;
    });
    ...
  }
  \<close>
\<close>

definition clear_span :: "span \<Rightarrow> span" where
  "clear_span sp = sp\<lparr>typedChar := None, correct := False, incorrect := False\<rparr>"

definition fullReset :: "state \<Rightarrow> state" where
  "fullReset s = s\<lparr>finished := False, startTs := None, pos := 0, report := None,
                   spans := map (map_option clear_span) (spans s)\<rparr>"

text \<open>
  \<^verbatim>\<open>
  function handleKeyDown(e) {
    if ((e.ctrlKey || e.metaKey) && e.key.toLowerCase() === "v") { e.preventDefault(); return; }
    if (!startTsRef.current) startTsRef.current = Date.now();
    if (e.key === "Backspace") {
      e.preventDefault();
      if (pos === 0) return;
      const prev = pos - 1;
      const sp = spansRef.current[prev];
      if (sp) { sp.classList.remove("correct", "incorrect"); delete sp.dataset.typedChar; }
      setPos(prev);
    } else if (e.key === "Enter") { e.preventDefault(); writeChar("\n"); }
    else if (e.key === "Tab") {
      e.preventDefault();
      // 4 spaces for tab
      writeChar(" "); writeChar(" "); writeChar(" "); writeChar(" ");
    } else if (e.key.length === 1 && !e.ctrlKey && !e.metaKey) { e.preventDefault(); writeChar(e.key); }
    else if (e.key === "Escape") { e.preventDefault(); fullReset(); }
    else { /* ignore arrows, home/end, etc. */ }
  }
  \<close>
  Only the keys \<open>v\<close> and \<open>V\<close> have the lower case \<open>v\<close>. The second statement of the
  handler, which starts the timer, is \<open>start_timer\<close>.
\<close>

definition is_paste :: "key_event \<Rightarrow> bool" where
  "is_paste e = ((ctrlKey e \<or> metaKey e) \<and> (key e = ''v'' \<or> key e = ''V''))"

definition start_timer :: "key_event \<Rightarrow> state \<Rightarrow> state" where
  "start_timer e s = (if \<not> truthy_ts (startTs s) then s\<lparr>startTs := Some (now_down e)\<rparr> else s)"

definition handleKeyDown :: "props \<Rightarrow> key_event \<Rightarrow> state \<Rightarrow> state" where
  "handleKeyDown P e s0 =
     (if is_paste e then s0
      else
        (let rp = pos s0;
             s = start_timer e s0
         in if key e = ''Backspace'' then
              (if rp = 0 then s
               else (let prev = rp - 1
                     in (case span_at (spans s) prev of
                           None \<Rightarrow> s
                         | Some sp \<Rightarrow> s\<lparr>spans := (spans s)[prev := Some (clear_span sp)]\<rparr>)
                        \<lparr>pos := prev\<rparr>))
            else if key e = ''Enter'' then writeChar P rp e (CHR 0x0A) s
            else if key e = ''Tab'' then
              writeChar P rp e CHR '' ''
                (writeChar P rp e CHR '' ''
                  (writeChar P rp e CHR '' ''
                    (writeChar P rp e CHR '' '' s)))
            else if length (key e) = 1 \<and> \<not> ctrlKey e \<and> \<not> metaKey e then
              writeChar P rp e (hd (key e)) s
            else if key e = ''Escape'' then fullReset s
            else s))"

text \<open>A session: the key events of a list, handled one after the other, each by the
  handler of the render that follows the previous event.\<close>

definition run :: "props \<Rightarrow> key_event list \<Rightarrow> state \<Rightarrow> state" where
  "run P es s = foldl (\<lambda>s e. handleKeyDown P e s) s es"

text \<open>The input classes of the claims.\<close>

definition printable :: "key_event \<Rightarrow> bool" where
  "printable e = (length (key e) = 1 \<and> \<not> ctrlKey e \<and> \<not> metaKey e)"

definition writes :: "key_event \<Rightarrow> bool" where
  "writes e = (\<not> is_paste e \<and> (key e = ''Enter'' \<or> key e = ''Tab'' \<or> printable e))"

definition press :: "string \<Rightarrow> int \<Rightarrow> key_event" where
  "press k t = \<lparr>key = k, ctrlKey = False, metaKey = False, now_down = t, now_finish = t\<rparr>"

subsection \<open>The life cycle of the component\<close>

text \<open>
  On mount React renders the prompt, calls the ref callbacks, which fill
  \<open>spansRef.current\<close>, and then runs the layout effect of the component, which empties the
  array again:
  \<^verbatim>\<open>
  useLayoutEffect(() => {
    // reset spansRef array to match new prompt
    spansRef.current = [];
    ...
  }, [problem?.id, text]);
  \<close>
  So the mounted component holds no span in \<open>spansRef.current\<close>; nothing has been typed and
  every span element is blank.
\<close>

definition mounted :: "props \<Rightarrow> state" where
  "mounted P = \<lparr>pos = 0, spans = [], startTs = None, finished = False,
                report = None, built = [], posted = []\<rparr>"

text \<open>
  The component renders again when a handler has changed \<open>pos\<close> or \<open>report\<close>. The ref
  callbacks are new functions at every render, so React calls them again: each character
  other than a newline gets its span element back into \<open>spansRef.current\<close>. An element
  keeps its data attribute and classes from one render to the next; an element that was not
  in the array is blank, being untouched since the mount or newly created.
\<close>

definition attach :: "props \<Rightarrow> state \<Rightarrow> state" where
  "attach P s =
     s\<lparr>spans := map (\<lambda>i. if chars P ! i = CHR 0x0A then None
                            else Some (case span_at (spans s) i of
                                         None \<Rightarrow> blank | Some sp \<Rightarrow> sp))
                     [0..<length (chars P)]\<rparr>"

text \<open>
  The render that follows a handler which took the state from \<open>s\<close> to \<open>s'\<close>. While a report
  is set the component shows the summary in place of the prompt and of the input: the spans
  are unmounted, which calls their ref callbacks with \<open>null\<close>.
\<close>

definition rerender :: "props \<Rightarrow> state \<Rightarrow> state \<Rightarrow> state" where
  "rerender P s s' =
     (if pos s' = pos s \<and> report s' = report s then s'
      else if report s' \<noteq> None then s'\<lparr>spans := map (\<lambda>_. None) (spans s')\<rparr>
      else attach P s')"

text \<open>
  The events of a session: a \<open>keydown\<close> on the hidden input, which exists only while no
  report is shown, and a click on the button (\<open>Reset\<close>, or \<open>Try Again\<close> in the summary), whose
  handler is \<open>fullReset\<close>.
\<close>

datatype event = KeyDown key_event | ResetClick

fun step :: "props \<Rightarrow> event \<Rightarrow> state \<Rightarrow> state" where
  "step P (KeyDown e) s = (if report s \<noteq> None then s else rerender P s (handleKeyDown P e s))"
| "step P ResetClick s = rerender P s (fullReset s)"

definition session :: "props \<Rightarrow> event list \<Rightarrow> state \<Rightarrow> state" where
  "session P evs s = foldl (\<lambda>s ev. step P ev s) s evs"

text \<open>An event that writes a character.\<close>

fun writing :: "event \<Rightarrow> bool" where
  "writing (KeyDown e) = writes e"
| "writing ResetClick = False"

text \<open>Props for concrete sessions: problem \<open>p1\<close> with a given text, submitted automatically.\<close>

definition demo :: "string \<Rightarrow> props" where
  "demo txt = \<lparr>problem_id = ''p1'', problem_text = txt, autoSubmit = True, nick = None\<rparr>"

subsection \<open>Notions used in the proofs\<close>

text \<open>
  A step is quiet when it neither changes the finished flag nor produces an attempt; it
  fires when it sets the flag and builds exactly one attempt (posted at most once).
\<close>

definition quiet :: "state \<Rightarrow> state \<Rightarrow> bool" where
  "quiet s s' = (finished s' = finished s \<and> built s' = built s \<and> posted s' = posted s)"

definition fires :: "state \<Rightarrow> state \<Rightarrow> bool" where
  "fires s s' = (\<not> finished s \<and> finished s' \<and> length (built s') = length (built s) + 1
                 \<and> length (posted s') \<le> length (posted s) + 1)"

text \<open>
  The invariant of the engine on a prompt every character of which has a span: the typed
  verdicts are those below the position, and the position passes the end of the prompt by
  at most one, which happens only in a finished session.
\<close>

definition lockstep :: "props \<Rightarrow> state \<Rightarrow> bool" where
  "lockstep P s =
     (length (spans s) = length (chars P)
      \<and> (\<forall>i < length (chars P). spans s ! i \<noteq> None \<and> (is_typed (spans s ! i) \<longleftrightarrow> i < pos s))
      \<and> pos s \<le> length (chars P) + 1
      \<and> (length (chars P) < pos s \<longrightarrow> finished s))"

text \<open>
  The three invariants of a session. The flag and the report go together. In a session
  after a reset, the engine is in lockstep while the prompt is shown. In a session from the
  mount, the array of spans is empty before the first render, and afterwards every typed
  verdict lies below the position; no verdict is left when the report is shown.
\<close>

definition shown :: "state \<Rightarrow> bool" where
  "shown s = (report s = None \<longleftrightarrow> \<not> finished s)"

definition attached :: "props \<Rightarrow> state \<Rightarrow> bool" where
  "attached P s =
     (length (spans s) = length (chars P) \<and> (\<forall>i < length (chars P). spans s ! i \<noteq> None))"


definition below :: "props \<Rightarrow> state \<Rightarrow> bool" where
  "below P s =
     (attached P s \<and> (\<forall>i < length (chars P). is_typed (spans s ! i) \<longrightarrow> i < pos s))"


section \<open>The leaderboard endpoint of the server\<close>

text \<open>
  The server stores each posted attempt with an id and a creation time:
  \<^verbatim>\<open>
  const attempt = { id: nanoid(), user: body.user || "anon", problemId: body.problemId,
                    wpm: body.wpm, accuracy: body.accuracy, rawText: body.rawText || "",
                    durationMs: body.durationMs, createdAt: Date.now() };
  \<close>
  The fields \<open>wpm\<close> and \<open>accuracy\<close> are the integers that \<open>finishIfNeeded\<close> computes.
\<close>

record stored_attempt = attempt +
  attempt_id :: string
  createdAt :: int

text \<open>
  \<^verbatim>\<open>
  app.get("/api/leaderboard", async (req, res) => {
    const { problemId } = req.query;
    await db.read();
    let attempts = db.data.attempts.filter(a => (problemId ? a.problemId === problemId : true));
    attempts.sort((a, b) => b.wpm - a.wpm || b.accuracy - a.accuracy);
    res.json(attempts.slice(0, 50));
  });
  \<close>
  The query parameter is absent (\<open>None\<close>) or a string; the empty string is falsy, as is the
  number 0 in the comparison function.
\<close>

definition compare_attempts :: "stored_attempt \<Rightarrow> stored_attempt \<Rightarrow> int" where
  "compare_attempts a b =
     (if wpm b - wpm a \<noteq> 0 then wpm b - wpm a else accuracy b - accuracy a)"

text \<open>
  \<open>Array.prototype.sort\<close> with a comparison function is a stable sort: \<open>a\<close> comes before
  \<open>b\<close> when the function is negative, after it when positive, and elements that compare
  equal keep their order. It is modelled by a stable insertion sort.
\<close>

fun place :: "('a \<Rightarrow> 'a \<Rightarrow> int) \<Rightarrow> 'a \<Rightarrow> 'a list \<Rightarrow> 'a list" where
  "place c x [] = [x]"
| "place c x (y # ys) = (if c x y \<le> 0 then x # y # ys else y # place c x ys)"

fun sort_cmp :: "('a \<Rightarrow> 'a \<Rightarrow> int) \<Rightarrow> 'a list \<Rightarrow> 'a list" where
  "sort_cmp c [] = []"
| "sort_cmp c (x # xs) = place c x (sort_cmp c xs)"

definition truthy_str :: "string option \<Rightarrow> bool" where
  "truthy_str q = (case q of None \<Rightarrow> False | Some v \<Rightarrow> v \<noteq> [])"

definition leaderboard :: "string option \<Rightarrow> stored_attempt list \<Rightarrow> stored_attempt list" where
  "leaderboard q db =
     take 50 (sort_cmp compare_attempts
       (filter (\<lambda>a. if truthy_str q then Some (problemId a) = q else True) db))"

text \<open>The order of the leaderboard: more words per minute first, then higher accuracy.\<close>

definition ranks_before :: "stored_attempt \<Rightarrow> stored_attempt \<Rightarrow> bool" where
  "ranks_before a b = (wpm a > wpm b \<or> (wpm a = wpm b \<and> accuracy a \<ge> accuracy b))"

section \<open>Rounding to a double\<close>

lemma round_half_even_error: "\<bar>of_int (round_half_even r) - r\<bar> \<le> 1 / 2"
proof -
  have "of_int \<lfloor>r\<rfloor> \<le> r" "r < of_int \<lfloor>r\<rfloor> + 1" by linarith+
  then show ?thesis
    by (auto simp: round_half_even_def Let_def)
qed

lemma bits_upper: "n < 2 ^ bits n"
proof (induction n rule: bits.induct)
  case (1 n)
  show ?case
  proof (cases "n = 0")
    case True
    then show ?thesis by (simp add: bits.simps)
  next
    case False
    then have "n div 2 < 2 ^ bits (n div 2)" using 1 by simp
    then have "n < 2 * 2 ^ bits (n div 2)" by linarith
    then show ?thesis using False by (simp add: bits.simps [of n])
  qed
qed

lemma bits_lower: "0 < n \<Longrightarrow> 2 ^ (bits n - 1) \<le> n"
proof (induction n rule: bits.induct)
  case (1 n)
  show ?case
  proof (cases "n div 2 = 0")
    case True
    then have "bits n = 1" using 1(2) by (simp add: bits.simps [of n] bits.simps [of 0])
    with 1(2) show ?thesis by simp
  next
    case False
    then have ih: "2 ^ (bits (n div 2) - 1) \<le> n div 2" using 1 by simp
    have pos: "0 < bits (n div 2)" using False by (simp add: bits.simps [of "n div 2"])
    have "bits n - 1 = Suc (bits (n div 2) - 1)"
      using 1(2) pos by (simp add: bits.simps [of n])
    then have "(2::nat) ^ (bits n - 1) = 2 * 2 ^ (bits (n div 2) - 1)" by simp
    also have "\<dots> \<le> 2 * (n div 2)" using ih by simp
    also have "\<dots> \<le> n" by simp
    finally show ?thesis .
  qed
qed

lemma floorlog2_bounds:
  assumes "0 < n"
  shows "(2::nat) ^ (bits n - 1) \<le> n" and "n < 2 ^ bits n" and "0 < bits n"
  using bits_lower [OF assms] bits_upper [of n] assms by (simp_all add: bits.simps [of n])

lemma pow2_le_of_nat: "(2::nat) ^ k \<le> n \<Longrightarrow> (2::rat) ^ k \<le> of_nat n"
  by (metis of_nat_le_iff of_nat_numeral of_nat_power)

lemma of_nat_le_pow2: "n \<le> (2::nat) ^ k \<Longrightarrow> rat_of_nat n \<le> 2 ^ k"
  by (metis of_nat_le_iff of_nat_numeral of_nat_power)

lemma ilog2_bounds:
  assumes "0 < a"
  shows "power_int 2 (ilog2 a) \<le> a \<and> a < power_int 2 (ilog2 a + 1)"
proof -
  show ?thesis
  proof (cases "1 \<le> a")
    case True
    define n where "n = nat \<lfloor>a\<rfloor>"
    have n: "0 < n" "rat_of_nat n \<le> a" "a < rat_of_nat n + 1"
      using True unfolding n_def by (simp_all add: of_nat_nat) linarith+
    define j where "j = bits n"
    have j: "(2::nat) ^ (j - 1) \<le> n" "n < 2 ^ j" "0 < j"
      unfolding j_def using floorlog2_bounds [OF n(1)] by simp_all
    have e: "ilog2 a = int (j - 1)"
      using True j(3) by (simp add: ilog2_def n_def j_def)
    have "(2::rat) ^ (j - 1) \<le> a"
      using pow2_le_of_nat [OF j(1)] n(2) by linarith
    then have A: "power_int 2 (ilog2 a) \<le> a"
      by (simp only: e power_int_of_nat)
    have "Suc n \<le> 2 ^ j" using j(2) by simp
    from of_nat_le_pow2 [OF this] have "a < (2::rat) ^ j" using n(3) by simp
    moreover have "ilog2 a + 1 = int j" using e j(3) by simp
    ultimately have "a < power_int 2 (ilog2 a + 1)"
      by (simp only: power_int_of_nat)
    with A show ?thesis by simp
  next
    case False
    define k where "k = \<lceil>1 / a\<rceil>"
    have inv: "1 < 1 / a" using assms False by simp
    have k: "1 / a \<le> of_int k" "of_int k - 1 < 1 / a" "2 \<le> k"
      unfolding k_def using inv by (simp_all add: le_of_int_ceiling) linarith+
    define n where "n = nat (k - 1)"
    have n: "0 < n" "int n = k - 1" using k(3) by (simp_all add: n_def)
    have nk: "rat_of_nat n = of_int k - 1"
      using n(2) by (metis of_int_diff of_int_of_nat_eq of_int_1)
    define j where "j = bits n"
    have j: "(2::nat) ^ (j - 1) \<le> n" "n < 2 ^ j" "0 < j"
      unfolding j_def using floorlog2_bounds [OF n(1)] by simp_all
    have e: "ilog2 a = - int j"
      using False by (simp add: ilog2_def n_def j_def k_def)
    have "Suc n \<le> 2 ^ j" using j(2) by simp
    from of_nat_le_pow2 [OF this] have "rat_of_nat n + 1 \<le> 2 ^ j" by simp
    then have "1 / a \<le> (2::rat) ^ j" using k(1) nk by linarith
    then have "1 / 2 ^ j \<le> a"
      using assms by (simp add: field_simps)
    then have A: "power_int 2 (ilog2 a) \<le> a"
      by (simp add: e power_int_minus_divide)
    have "(2::rat) ^ (j - 1) < 1 / a"
      using pow2_le_of_nat [OF j(1)] k(2) nk by linarith
    then have "a < 1 / 2 ^ (j - 1)"
      using assms by (simp add: field_simps)
    moreover have "ilog2 a + 1 = - int (j - 1)" using e j(3) by simp
    ultimately have "a < power_int 2 (ilog2 a + 1)"
      by (simp only: power_int_minus_divide power_int_of_nat)
    with A show ?thesis by simp
  qed
qed


lemma round_double_normal:
  assumes lo: "power_int 2 (- 1022) \<le> \<bar>x\<bar>" and hi: "\<bar>x\<bar> < power_int 2 1023"
  shows "\<exists>y. round_double x = Num y \<and> \<bar>y - x\<bar> \<le> \<bar>x\<bar> / 2 ^ 53"
proof -
  define a where "a = \<bar>x\<bar>"
  define e where "e = ilog2 a"
  have "(0::rat) < power_int 2 (- 1022)" by (simp add: power_int_def)
  with lo have a0: "0 < a" and x0: "x \<noteq> 0" by (auto simp: a_def)
  have b: "power_int 2 e \<le> a" "a < power_int 2 (e + 1)"
    using ilog2_bounds [OF a0] by (simp_all add: e_def)
  have e_lo: "- 1022 \<le> e"
  proof (rule ccontr)
    assume "\<not> - 1022 \<le> e"
    then have "e + 1 \<le> - 1022" by simp
    then have "power_int (2::rat) (e + 1) \<le> power_int 2 (- 1022)"
      by (rule power_int_increasing) simp
    with b(2) lo show False by (simp add: a_def)
  qed
  have e_hi: "e < 1023"
  proof (rule ccontr)
    assume "\<not> e < 1023"
    then have "1023 \<le> e" by simp
    then have "power_int (2::rat) 1023 \<le> power_int 2 e"
      by (rule power_int_increasing) simp
    with b(1) hi show False by (simp add: a_def)
  qed
  define p where "p = power_int (2::rat) (e - 52)"
  have p0: "0 < p" by (simp add: p_def power_int_def)
  have pinv: "power_int (2::rat) (52 - e) = 1 / p"
    using power_int_minus_divide [of "2::rat" "e - 52"] by (simp add: p_def)
  define m where "m = round_half_even (a * power_int 2 (52 - e))"
  have m: "\<bar>of_int m - a / p\<bar> \<le> 1 / 2"
    using round_half_even_error [of "a / p"] by (simp add: m_def pinv)
  have rd: "round_double x = Num (sgn x * of_int m * p)"
    using x0 e_lo e_hi
    by (simp add: round_double_def Let_def a_def [symmetric] e_def [symmetric] m_def [symmetric]
        p_def [symmetric])
  have xa: "x = sgn x * a" by (simp add: a_def sgn_mult_abs)
  have "sgn x * of_int m * p - x = sgn x * ((of_int m - a / p) * p)"
    using p0 by (subst (2) xa) (simp add: field_simps)
  then have "\<bar>sgn x * of_int m * p - x\<bar> = \<bar>of_int m - a / p\<bar> * p"
    using x0 p0 by (simp add: abs_mult abs_sgn_eq)
  also have "\<dots> \<le> (1 / 2) * p"
    using m p0 by (simp add: mult_right_mono)
  also have "(1 / 2) * p = power_int 2 e / 2 ^ 53"
  proof -
    have "power_int (2::rat) e = power_int 2 (e - 52) * power_int 2 52"
      using power_int_add [of "2::rat" "e - 52" 52] by simp
    then show ?thesis by (simp add: p_def)
  qed
  also have "\<dots> \<le> a / 2 ^ 53"
    using b(1) by (simp add: divide_right_mono)
  finally have "\<bar>sgn x * of_int m * p - x\<bar> \<le> \<bar>x\<bar> / 2 ^ 53"
    by (simp add: a_def)
  with rd show ?thesis by blast
qed

lemma round_double_overflow:
  assumes "power_int 2 1024 \<le> x"
  shows "round_double x = PosInf"
proof -
  have "(0::rat) < power_int 2 1024" by (simp add: power_int_def)
  with assms have x0: "0 < x" by linarith
  have b: "x < power_int 2 (ilog2 \<bar>x\<bar> + 1)"
    using ilog2_bounds [of "\<bar>x\<bar>"] x0 by simp
  have "1023 < ilog2 \<bar>x\<bar>"
  proof (rule ccontr)
    assume "\<not> 1023 < ilog2 \<bar>x\<bar>"
    then have "ilog2 \<bar>x\<bar> + 1 \<le> 1024" by simp
    then have "power_int (2::rat) (ilog2 \<bar>x\<bar> + 1) \<le> power_int 2 1024"
      by (rule power_int_increasing) simp
    with b assms show False by linarith
  qed
  then show ?thesis
    using x0 by (simp add: round_double_def Let_def)
qed


lemma round_double_0 [simp]: "round_double 0 = Num 0"
  by (simp add: round_double_def)

lemma round_double_rel:
  assumes "1 / 2 ^ 100 \<le> x" and "x \<le> 2 ^ 100"
  shows "\<exists>y. round_double x = Num y \<and> x * (1 - 1 / 2 ^ 53) \<le> y \<and> y \<le> x * (1 + 1 / 2 ^ 53)"
proof -
  have x0: "0 < x"
    using assms(1) by (rule less_le_trans [rotated]) simp
  have "power_int (2::rat) (- 1022) \<le> power_int 2 (- 100)"
    by (rule power_int_increasing) simp_all
  also have "power_int (2::rat) (- 100) = 1 / 2 ^ 100"
    by (simp add: power_int_minus_divide)
  finally have lo: "power_int 2 (- 1022) \<le> \<bar>x\<bar>" using assms(1) x0 by simp
  have "power_int (2::rat) 100 < power_int 2 1023"
    by (rule power_int_strict_increasing) simp_all
  then have hi: "\<bar>x\<bar> < power_int 2 1023" using assms(2) x0 by simp
  from round_double_normal [OF lo hi] obtain y
    where y: "round_double x = Num y" "\<bar>y - x\<bar> \<le> \<bar>x\<bar> / 2 ^ 53" by blast
  have "\<bar>x\<bar> = x" using x0 by simp
  with y(2) have "y - x \<le> x / 2 ^ 53" "- (x / 2 ^ 53) \<le> y - x" by linarith+
  then have "x * (1 - 1 / 2 ^ 53) \<le> y \<and> y \<le> x * (1 + 1 / 2 ^ 53)"
    by (simp add: algebra_simps)
  with y(1) show ?thesis by blast
qed


lemma quotient_rel:
  fixes a b a' b' c' :: rat
  assumes a: "0 < a" "a * (1 - 1 / 2 ^ 53) \<le> a'" "a' \<le> a * (1 + 1 / 2 ^ 53)"
    and b: "0 < b" "b * (1 - 1 / 2 ^ 53) \<le> b'" "b' \<le> b * (1 + 1 / 2 ^ 53)"
    and c: "(a' / b') * (1 - 1 / 2 ^ 53) \<le> c'" "c' \<le> (a' / b') * (1 + 1 / 2 ^ 53)"
  shows "(a / b) * (1 - 1 / 2 ^ 50) \<le> c'" and "c' \<le> (a / b) * (1 + 1 / 2 ^ 50)"
proof -
  define u :: rat where "u = 1 / 2 ^ 53"
  have u: "0 < u" "u < 1" by (simp_all add: u_def)
  have a': "0 < a'" "a * (1 - u) \<le> a'" "a' \<le> a * (1 + u)"
    using a u by (auto simp: u_def intro: less_le_trans [of 0 "a * (1 - 1 / 2 ^ 53)"])
  have b': "0 < b'" "b * (1 - u) \<le> b'" "b' \<le> b * (1 + u)"
    using b u by (auto simp: u_def intro: less_le_trans [of 0 "b * (1 - 1 / 2 ^ 53)"])
  have q: "0 < a / b" using a(1) b(1) by simp
  have up: "a' / b' \<le> (a * (1 + u)) / (b * (1 - u))"
    by (rule frac_le) (use a' b' a b u in simp_all)
  have lo: "(a * (1 - u)) / (b * (1 + u)) \<le> a' / b'"
    by (rule frac_le) (use a' b' a b u in simp_all)
  have "c' \<le> (a' / b') * (1 + u)" using c(2) by (simp add: u_def)
  also have "\<dots> \<le> ((a * (1 + u)) / (b * (1 - u))) * (1 + u)"
    by (rule mult_right_mono) (use up u in simp_all)
  also have "\<dots> = (a / b) * ((1 + u) * (1 + u) / (1 - u))"
    by simp
  also have "\<dots> \<le> (a / b) * (1 + 1 / 2 ^ 50)"
  proof (rule mult_left_mono)
    show "(1 + u) * (1 + u) / (1 - u) \<le> 1 + 1 / 2 ^ 50" by (simp add: u_def)
    show "0 \<le> a / b" using q by simp
  qed
  finally show "c' \<le> (a / b) * (1 + 1 / 2 ^ 50)" .
  have "(a / b) * (1 - 1 / 2 ^ 50) \<le> (a / b) * ((1 - u) * (1 - u) / (1 + u))"
  proof (rule mult_left_mono)
    show "1 - 1 / 2 ^ 50 \<le> (1 - u) * (1 - u) / (1 + u)" by (simp add: u_def)
    show "0 \<le> a / b" using q by simp
  qed
  also have "\<dots> = ((a * (1 - u)) / (b * (1 + u))) * (1 - u)"
    by simp
  also have "\<dots> \<le> (a' / b') * (1 - u)"
    by (rule mult_right_mono) (use lo u in simp_all)
  also have "\<dots> \<le> c'" using c(1) by (simp add: u_def)
  finally show "(a / b) * (1 - 1 / 2 ^ 50) \<le> c'" .
qed


lemma floor_half [simp]: "\<lfloor>(1::rat) / 2\<rfloor> = 0"
  by (rule floor_unique) simp_all

lemma calcWPM_no_time: "calcWPM n 0 = Num 0"
  by (simp add: calcWPM_def)

lemma minutes_rel:
  assumes "0 < ms" and "ms < 2 ^ 53"
  shows "\<exists>b'. js_div (Num (of_int ms)) (Num 60000) = Num b'
            \<and> (rat_of_int ms / 60000) * (1 - 1 / 2 ^ 53) \<le> b'
            \<and> b' \<le> (rat_of_int ms / 60000) * (1 + 1 / 2 ^ 53)"
proof -
  have "1 \<le> rat_of_int ms" "rat_of_int ms \<le> 2 ^ 53"
    using assms by simp_all
  then have "1 / 2 ^ 100 \<le> rat_of_int ms / 60000" "rat_of_int ms / 60000 \<le> 2 ^ 100"
    by simp_all
  from round_double_rel [OF this] show ?thesis by simp
qed


lemma words_rel:
  assumes "0 < n" and "n < 2 ^ 53"
  shows "\<exists>a'. js_div (Num (of_int n)) (Num 5) = Num a'
            \<and> (rat_of_int n / 5) * (1 - 1 / 2 ^ 53) \<le> a'
            \<and> a' \<le> (rat_of_int n / 5) * (1 + 1 / 2 ^ 53)"
proof -
  have "1 \<le> rat_of_int n" "rat_of_int n \<le> 2 ^ 53"
    using assms by simp_all
  then have "1 / 2 ^ 100 \<le> rat_of_int n / 5" "rat_of_int n / 5 \<le> 2 ^ 100"
    by simp_all
  from round_double_rel [OF this] show ?thesis by simp
qed

lemma calcWPM_no_chars:
  assumes "0 < ms" and "ms < 2 ^ 53"
  shows "calcWPM 0 ms = Num 0"
proof -
  from minutes_rel [OF assms] obtain b' where
    b': "js_div (Num (of_int ms)) (Num 60000) = Num b'"
      "(rat_of_int ms / 60000) * (1 - 1 / 2 ^ 53) \<le> b'" by blast
  have "0 < (rat_of_int ms / 60000) * (1 - 1 / 2 ^ 53)" using assms(1) by simp
  with b'(2) have "0 < b'" by linarith
  then show ?thesis
    using b'(1) by (simp add: calcWPM_def)
qed

lemma calcWPM_rel:
  assumes "0 < n" and "n < 2 ^ 53" and "0 < ms" and "ms < 2 ^ 53"
  shows "\<exists>c. calcWPM n ms = Num (of_int \<lfloor>c + 1 / 2\<rfloor>)
           \<and> (rat_of_int n / 5) / (rat_of_int ms / 60000) * (1 - 1 / 2 ^ 50) \<le> c
           \<and> c \<le> (rat_of_int n / 5) / (rat_of_int ms / 60000) * (1 + 1 / 2 ^ 50)"
proof -
  define a where "a = rat_of_int n / 5"
  define b where "b = rat_of_int ms / 60000"
  have n: "1 \<le> rat_of_int n" "rat_of_int n \<le> 2 ^ 53" using assms by simp_all
  have m: "1 \<le> rat_of_int ms" "rat_of_int ms \<le> 2 ^ 53" using assms by simp_all
  have a: "1 / 5 \<le> a" "a \<le> 2 ^ 53 / 5" "0 < a" using n by (simp_all add: a_def)
  have b: "1 / 60000 \<le> b" "b \<le> 2 ^ 53 / 60000" "0 < b" using m by (simp_all add: b_def)
  from words_rel [OF assms(1,2)] obtain a' where
    a': "js_div (Num (of_int n)) (Num 5) = Num a'"
      "a * (1 - 1 / 2 ^ 53) \<le> a'" "a' \<le> a * (1 + 1 / 2 ^ 53)"
    unfolding a_def by blast
  from minutes_rel [OF assms(3,4)] obtain b' where
    b': "js_div (Num (of_int ms)) (Num 60000) = Num b'"
      "b * (1 - 1 / 2 ^ 53) \<le> b'" "b' \<le> b * (1 + 1 / 2 ^ 53)"
    unfolding b_def by blast
  have a'r: "1 / 8 \<le> a'" "a' \<le> 2 ^ 52"
    using a a' by (simp_all add: algebra_simps)
  have b'r: "1 / 2 ^ 17 \<le> b'" "b' \<le> 2 ^ 40"
    using b b' by (simp_all add: algebra_simps)
  have b'0: "0 < b'" using b'r(1) by (rule less_le_trans [rotated]) simp
  have "1 / 8 / 2 ^ 40 \<le> a' / b'"
    by (rule frac_le) (use a'r b'r b'0 in simp_all)
  moreover have "1 / 2 ^ 100 \<le> (1 / 8 / 2 ^ 40 :: rat)" by simp
  ultimately have c_lo: "1 / 2 ^ 100 \<le> a' / b'" by (rule order_trans [rotated])
  have "a' / b' \<le> 2 ^ 52 / (1 / 2 ^ 17)"
    by (rule frac_le) (use a'r b'r b'0 in simp_all)
  moreover have "(2 ^ 52 / (1 / 2 ^ 17) :: rat) \<le> 2 ^ 100" by simp
  ultimately have c_hi: "a' / b' \<le> 2 ^ 100" by (rule order_trans)
  from round_double_rel [OF c_lo c_hi] obtain c' where
    c': "round_double (a' / b') = Num c'"
      "(a' / b') * (1 - 1 / 2 ^ 53) \<le> c'" "c' \<le> (a' / b') * (1 + 1 / 2 ^ 53)"
    by blast
  have w: "calcWPM n ms = Num (of_int \<lfloor>c' + 1 / 2\<rfloor>)"
    using a'(1) b'(1) b'0 c'(1) by (simp add: calcWPM_def)
  have "(a / b) * (1 - 1 / 2 ^ 50) \<le> c'" "c' \<le> (a / b) * (1 + 1 / 2 ^ 50)"
    using quotient_rel [OF a(3) a'(2,3) b(3) b'(2,3) c'(2,3)] by simp_all
  with w show ?thesis unfolding a_def b_def by blast
qed

section \<open>Words per minute\<close>

lemma calcWPM_overflow: "calcWPM (2 ^ 1023) 1 = PosInf"
proof -
  define a :: rat where "a = 2 ^ 1023 / 5"
  have a0: "0 < a" by (simp add: a_def)
  have "power_int (2::rat) (- 1022) \<le> power_int 2 1020"
    by (rule power_int_increasing) simp_all
  moreover have a_lo: "power_int (2::rat) 1020 \<le> a"
    by (simp add: a_def)
  ultimately have lo: "power_int 2 (- 1022) \<le> \<bar>a\<bar>" using a0 by simp
  have hi: "\<bar>a\<bar> < power_int 2 1023" by (simp add: a_def)
  from round_double_normal [OF lo hi] obtain a' where
    a': "round_double a = Num a'" "\<bar>a' - a\<bar> \<le> \<bar>a\<bar> / 2 ^ 53" by blast
  have "a - a / 2 ^ 53 \<le> a'" using a'(2) a0 by (simp add: abs_if split: if_splits)
  moreover have "(2::rat) ^ 1019 \<le> a - a / 2 ^ 53" by (simp add: a_def)
  ultimately have a'r: "2 ^ 1019 \<le> a'" by (rule order_trans [rotated])
  have "1 / 2 ^ 100 \<le> (1 / 60000 :: rat)" "(1 / 60000 :: rat) \<le> 2 ^ 100" by simp_all
  from round_double_rel [OF this] obtain b' where
    b': "round_double (1 / 60000) = Num b'" "(1 / 60000) * (1 - 1 / 2 ^ 53) \<le> b'"
      "b' \<le> (1 / 60000) * (1 + 1 / 2 ^ 53)" by blast
  have b'0: "0 < b'" using b'(2) by (rule less_le_trans [rotated]) simp
  have b'1: "b' \<le> 1 / 2 ^ 15" using b'(3) by (rule order_trans) simp
  have "2 ^ 1019 / (1 / 2 ^ 15) \<le> a' / b'"
    by (rule frac_le) (use a'r b'0 b'1 in simp_all)
  moreover have "power_int (2::rat) 1024 \<le> 2 ^ 1019 / (1 / 2 ^ 15)" by simp
  ultimately have "power_int 2 1024 \<le> a' / b'" by (rule order_trans [rotated])
  then have "round_double (a' / b') = PosInf" by (rule round_double_overflow)
  moreover have "js_div (Num (of_int (2 ^ 1023))) (Num 5) = Num a'"
    using a'(1) by (simp add: a_def)
  moreover have "js_div (Num (of_int 1)) (Num 60000) = Num b'"
    using b'(1) by simp
  ultimately show ?thesis
    using b'0 by (simp add: calcWPM_def)
qed


lemma calcWPM_0 [simp]: "calcWPM 0 d = Num 0"
proof (cases "js_div (Num (rat_of_int d)) (Num 60000)")
  case (Num b)
  then show ?thesis by (simp add: calcWPM_def)
next
  case PosInf
  then show ?thesis by (simp add: calcWPM_def)
next
  case NegInf
  then show ?thesis by (simp add: calcWPM_def)
next
  case NaN
  then show ?thesis by (simp add: calcWPM_def)
qed

text \<open>
  Claim C7, as amended. For non-negative \<open>typedCharacterCount\<close> and \<open>elapsedMs\<close> below
  \<open>2 ^ 53\<close>, \<open>calcWPM\<close> returns a non-negative integer, never an infinity or NaN; it is
  0 when the elapsed time is zero or the count is zero. For a positive elapsed time it is
  \<open>Math.round\<close> of the quotient computed in double precision, which lies between the
  roundings of \<open>q * (1 - 2 ^ - 50)\<close> and \<open>q * (1 + 2 ^ - 50)\<close> for the exact quotient
  \<open>q = (typedCharacterCount / 5) / (elapsedMs / 60000)\<close>: it is \<open>round q\<close> unless \<open>q\<close> is
  that close to a tie. 25 characters in 60000 ms give 5.
\<close>

theorem calcWPM_double:
  assumes "0 \<le> n" and "n < 2 ^ 53" and "0 \<le> ms" and "ms < 2 ^ 53"
  shows "(\<exists>k. calcWPM n ms = Num (of_int k) \<and> 0 \<le> k
            \<and> (ms = 0 \<or> n = 0 \<longrightarrow> k = 0)
            \<and> (0 < ms \<longrightarrow>
                  \<lfloor>(rat_of_int n / 5) / (rat_of_int ms / 60000) * (1 - 1 / 2 ^ 50) + 1 / 2\<rfloor> \<le> k
                \<and> k \<le> \<lfloor>(rat_of_int n / 5) / (rat_of_int ms / 60000) * (1 + 1 / 2 ^ 50) + 1 / 2\<rfloor>))
       \<and> calcWPM 25 60000 = Num 5"
proof
  show "calcWPM 25 60000 = Num 5" by code_simp
  let ?q = "(rat_of_int n / 5) / (rat_of_int ms / 60000)"
  show "\<exists>k. calcWPM n ms = Num (of_int k) \<and> 0 \<le> k
            \<and> (ms = 0 \<or> n = 0 \<longrightarrow> k = 0)
            \<and> (0 < ms \<longrightarrow> \<lfloor>?q * (1 - 1 / 2 ^ 50) + 1 / 2\<rfloor> \<le> k
                \<and> k \<le> \<lfloor>?q * (1 + 1 / 2 ^ 50) + 1 / 2\<rfloor>)"
  proof (cases "ms = 0 \<or> n = 0")
    case True
    then have "calcWPM n ms = Num (of_int 0)"
      using assms calcWPM_no_time [of n] by auto
    moreover have "n = 0 \<Longrightarrow> ?q = 0" by simp
    ultimately show ?thesis using True by (intro exI [of _ 0]) auto
  next
    case False
    then have pos: "0 < n" "0 < ms" using assms by simp_all
    from calcWPM_rel [OF pos(1) assms(2) pos(2) assms(4)] obtain c where
      c: "calcWPM n ms = Num (of_int \<lfloor>c + 1 / 2\<rfloor>)"
        "?q * (1 - 1 / 2 ^ 50) \<le> c" "c \<le> ?q * (1 + 1 / 2 ^ 50)" by blast
    have "0 \<le> ?q * (1 - 1 / 2 ^ 50)" using pos by simp
    with c(2) have "0 \<le> c" by linarith
    then have "0 \<le> \<lfloor>c + 1 / 2\<rfloor>" by simp
    moreover have "\<lfloor>?q * (1 - 1 / 2 ^ 50) + 1 / 2\<rfloor> \<le> \<lfloor>c + 1 / 2\<rfloor>"
      using c(2) by (intro floor_mono) simp
    moreover have "\<lfloor>c + 1 / 2\<rfloor> \<le> \<lfloor>?q * (1 + 1 / 2 ^ 50) + 1 / 2\<rfloor>"
      using c(3) by (intro floor_mono) simp
    ultimately show ?thesis using c(1) False by (intro exI [of _ "\<lfloor>c + 1 / 2\<rfloor>"]) simp
  qed
qed

theorem calcWPM_double_counterexample:
  "calcWPM 3 24000 = Num 1
   \<and> \<lfloor>(rat_of_int 3 / 5) / (rat_of_int 24000 / 60000) + 1 / 2\<rfloor> = (2::int)
   \<and> calcWPM (2 ^ 1023) 1 = PosInf"
proof -
  have "calcWPM 3 24000 = Num 1" by code_simp
  moreover have "\<lfloor>(rat_of_int 3 / 5) / (rat_of_int 24000 / 60000) + 1 / 2\<rfloor> = (2::int)"
    by code_simp
  ultimately show ?thesis using calcWPM_overflow by simp
qed

theorem calcWPM_double_witness:
  "(0::int) \<le> 25 \<and> (25::int) < 2 ^ 53 \<and> (0::int) < 60000 \<and> (60000::int) < 2 ^ 53
   \<and> calcWPM 25 60000 = Num 5
   \<and> calcWPM 7 0 = Num 0 \<and> calcWPM 0 1000 = Num 0
   \<and> (calcWPM 8 24000 = Num 4)"
proof -
  have lo: "\<lfloor>(rat_of_int 8 / 5) / (rat_of_int 24000 / 60000) * (1 - 1 / 2 ^ 50) + 1 / 2\<rfloor> = (4::int)"
    by code_simp
  have hi: "\<lfloor>(rat_of_int 8 / 5) / (rat_of_int 24000 / 60000) * (1 + 1 / 2 ^ 50) + 1 / 2\<rfloor> = (4::int)"
    by code_simp
  have "calcWPM 8 24000 = Num 4"
    using calcWPM_double [of 8 24000] lo hi by auto
  moreover have "calcWPM 7 0 = Num 0" using calcWPM_double [of 7 0] by auto
  moreover have "calcWPM 0 1000 = Num 0" using calcWPM_double [of 0 1000] by auto
  ultimately show ?thesis using calcWPM_double [of 25 60000] by simp
qed

section \<open>Basic facts about the handler\<close>

lemma finishIfNeeded_frame [simp]:
  "pos (finishIfNeeded P rp e s) = pos s"
  "spans (finishIfNeeded P rp e s) = spans s"
  "startTs (finishIfNeeded P rp e s) = startTs s"
  by (simp_all add: finishIfNeeded_def Let_def)

lemma finishIfNeeded_finished [simp]:
  "finished s \<Longrightarrow> finishIfNeeded P rp e s = s"
  by (simp add: finishIfNeeded_def)

lemma writeChar_finished [simp]:
  "finished s \<Longrightarrow> writeChar P rp e ch s = s"
  by (simp add: writeChar_def)

lemma writeChar_startTs [simp]: "startTs (writeChar P rp e ch s) = startTs s"
  by (simp add: writeChar_def Let_def split: option.splits)

lemma finished_finishIfNeeded:
  "finished (finishIfNeeded P rp e s) \<longleftrightarrow> finished s \<or> length (chars P) \<le> rp"
  by (simp add: finishIfNeeded_def Let_def)

lemma finished_writeChar:
  "finished (writeChar P rp e ch s) \<longleftrightarrow> finished s \<or> length (chars P) \<le> rp"
  by (simp add: writeChar_def Let_def finished_finishIfNeeded split: option.splits)

lemma start_timer_frame [simp]:
  "pos (start_timer e s) = pos s"
  "spans (start_timer e s) = spans s"
  "finished (start_timer e s) = finished s"
  "built (start_timer e s) = built s"
  "posted (start_timer e s) = posted s"
  "report (start_timer e s) = report s"
  by (simp_all add: start_timer_def)

subsection \<open>The branches of the handler\<close>

lemma handleKeyDown_paste: "is_paste e \<Longrightarrow> handleKeyDown P e s = s"
  by (simp add: handleKeyDown_def)

lemma handleKeyDown_Backspace:
  assumes "\<not> is_paste e" and "key e = ''Backspace''"
  shows "handleKeyDown P e s =
     (if pos s = 0 then start_timer e s
      else (case span_at (spans s) (pos s - 1) of
              None \<Rightarrow> start_timer e s
            | Some sp \<Rightarrow> start_timer e s\<lparr>spans := (spans s)[pos s - 1 := Some (clear_span sp)]\<rparr>)
           \<lparr>pos := pos s - 1\<rparr>)"
  using assms by (auto simp: handleKeyDown_def Let_def split: option.splits)

lemma handleKeyDown_Enter:
  assumes "\<not> is_paste e" and "key e = ''Enter''"
  shows "handleKeyDown P e s = writeChar P (pos s) e (CHR 0x0A) (start_timer e s)"
  using assms by (simp add: handleKeyDown_def Let_def)

lemma handleKeyDown_Tab:
  assumes "\<not> is_paste e" and "key e = ''Tab''"
  shows "handleKeyDown P e s =
     writeChar P (pos s) e CHR '' '' (writeChar P (pos s) e CHR '' ''
       (writeChar P (pos s) e CHR '' '' (writeChar P (pos s) e CHR '' '' (start_timer e s))))"
  using assms by (simp add: handleKeyDown_def Let_def)

lemma printable_key:
  assumes "printable e"
  shows "\<not> is_paste e" "key e \<noteq> ''Backspace''" "key e \<noteq> ''Enter''" "key e \<noteq> ''Tab''"
    "key e \<noteq> ''Escape''"
  using assms by (auto simp: printable_def is_paste_def)

lemma handleKeyDown_printable:
  assumes "printable e"
  shows "handleKeyDown P e s = writeChar P (pos s) e (hd (key e)) (start_timer e s)"
  using printable_key [OF assms] assms by (simp add: handleKeyDown_def Let_def printable_def)

lemma handleKeyDown_Escape:
  assumes "key e = ''Escape''"
  shows "handleKeyDown P e s = fullReset (start_timer e s)"
  using assms by (simp add: handleKeyDown_def Let_def is_paste_def)

lemma handleKeyDown_other:
  assumes "\<not> is_paste e" and "key e \<noteq> ''Backspace''" and "\<not> writes e" and "key e \<noteq> ''Escape''"
  shows "handleKeyDown P e s = start_timer e s"
  using assms by (auto simp: handleKeyDown_def Let_def writes_def printable_def)

lemma key_cases [case_names paste Backspace Enter Tab printable Escape other]:
  obtains "is_paste e"
  | "\<not> is_paste e" "key e = ''Backspace''"
  | "\<not> is_paste e" "key e = ''Enter''"
  | "\<not> is_paste e" "key e = ''Tab''"
  | "printable e"
  | "key e = ''Escape''"
  | "\<not> is_paste e" "key e \<noteq> ''Backspace''" "\<not> writes e" "key e \<noteq> ''Escape''"
  by (auto simp: writes_def)

subsection \<open>Completion\<close>

lemma finishIfNeeded_outputs:
  "quiet s (finishIfNeeded P rp e s) \<or> fires s (finishIfNeeded P rp e s)"
  by (simp add: finishIfNeeded_def Let_def quiet_def fires_def)

lemma quiet_fires_trans:
  "quiet a b \<or> fires a b \<Longrightarrow> quiet b c \<or> fires b c \<Longrightarrow> quiet a c \<or> fires a c"
  by (auto simp: quiet_def fires_def)

lemma quiet_then:
  "quiet a b \<Longrightarrow> quiet b c \<or> fires b c \<Longrightarrow> quiet a c \<or> fires a c"
  by (auto simp: quiet_def fires_def)

lemma quiet_frame:
  "finished b = finished a \<Longrightarrow> built b = built a \<Longrightarrow> posted b = posted a \<Longrightarrow> quiet a b"
  by (simp add: quiet_def)

lemma writeChar_outputs:
  "quiet s (writeChar P rp e ch s) \<or> fires s (writeChar P rp e ch s)"
proof (cases "finished s")
  case True
  then show ?thesis by (simp add: quiet_def)
next
  case False
  have step: "quiet s (finishIfNeeded P rp e t) \<or> fires s (finishIfNeeded P rp e t)"
    if "quiet s t" for t
    using that finishIfNeeded_outputs [of t P rp e] by (rule quiet_then)
  show ?thesis
  proof (cases "span_at (spans s) rp")
    case None
    with False show ?thesis
      by (simp add: writeChar_def step quiet_frame)
  next
    case (Some sp)
    with False show ?thesis
      by (simp add: writeChar_def Let_def step quiet_frame)
  qed
qed

lemma handleKeyDown_outputs:
  assumes "key e \<noteq> ''Escape''"
  shows "quiet s (handleKeyDown P e s) \<or> fires s (handleKeyDown P e s)"
proof -
  let ?t = "start_timer e s"
  have q: "quiet s ?t" by (simp add: quiet_frame)
  have w: "quiet s (writeChar P rp e ch ?t) \<or> fires s (writeChar P rp e ch ?t)" for rp ch
    using q writeChar_outputs [of ?t P rp e ch] by (rule quiet_then)
  show ?thesis
  proof (cases e rule: key_cases)
    case paste
    then show ?thesis by (simp add: handleKeyDown_paste quiet_def)
  next
    case Backspace
    then show ?thesis
      by (simp add: handleKeyDown_Backspace quiet_def split: option.splits)
  next
    case Enter
    then show ?thesis by (simp add: handleKeyDown_Enter w)
  next
    case Tab
    have "quiet s (writeChar P rp e c4 (writeChar P rp e c3 (writeChar P rp e c2 (writeChar P rp e c1 ?t))))
        \<or> fires s (writeChar P rp e c4 (writeChar P rp e c3 (writeChar P rp e c2 (writeChar P rp e c1 ?t))))"
      for rp c1 c2 c3 c4
      by (rule quiet_fires_trans [OF quiet_fires_trans [OF quiet_fires_trans [OF w]]])
         (rule writeChar_outputs)+
    with Tab show ?thesis by (simp add: handleKeyDown_Tab)
  next
    case printable
    then show ?thesis by (simp add: handleKeyDown_printable w)
  next
    case Escape
    with assms show ?thesis by simp
  next
    case other
    then show ?thesis by (simp add: handleKeyDown_other q)
  qed
qed

lemma run_Cons: "run P (e # es) s = run P es (handleKeyDown P e s)"
  by (simp add: run_def)

lemma run_Nil: "run P [] s = s"
  by (simp add: run_def)

lemma run_snoc: "run P (es @ [e]) s = handleKeyDown P e (run P es s)"
  by (simp add: run_def)

lemma run_outputs:
  assumes "\<forall>e \<in> set es. key e \<noteq> ''Escape''"
  shows "quiet s (run P es s) \<or> fires s (run P es s)"
  using assms
proof (induction es arbitrary: s)
  case Nil
  then show ?case by (simp add: run_Nil quiet_def)
next
  case (Cons e es)
  let ?s = "handleKeyDown P e s"
  have 1: "quiet s ?s \<or> fires s ?s"
    using handleKeyDown_outputs Cons.prems by simp
  have 2: "quiet ?s (run P es ?s) \<or> fires ?s (run P es ?s)"
    using Cons by simp
  show ?case
    unfolding run_Cons using 1 2 by (rule quiet_fires_trans)
qed

text \<open>
  Claim C4. Completion fires at most once per session: over any sequence of key events
  without a reset (the Escape key), at most one attempt is built and at most one is posted,
  and once the finished flag is set no later key event builds or posts another one.
\<close>

theorem completion_at_most_once:
  assumes "\<forall>e \<in> set es. key e \<noteq> ''Escape''"
  shows "length (built (run P es s)) \<le> length (built s) + 1
       \<and> length (posted (run P es s)) \<le> length (posted s) + 1
       \<and> (finished s \<longrightarrow> finished (run P es s) \<and> built (run P es s) = built s
                          \<and> posted (run P es s) = posted s)"
  using run_outputs [OF assms, of s P]
  by (auto simp: quiet_def fires_def)

theorem completion_at_most_once_witness:
  "key (press ''ArrowLeft'' 3000) \<noteq> ''Escape'' \<and> key (press ''c'' 4000) \<noteq> ''Escape''
   \<and> finished (run (demo ''a'') [press ''a'' 1000, press ''b'' 2000] (init (demo ''a'')))
   \<and> length (built (run (demo ''a'') [press ''a'' 1000, press ''b'' 2000] (init (demo ''a'')))) = 1
   \<and> built (run (demo ''a'') [press ''ArrowLeft'' 3000, press ''c'' 4000]
         (run (demo ''a'') [press ''a'' 1000, press ''b'' 2000] (init (demo ''a''))))
     = built (run (demo ''a'') [press ''a'' 1000, press ''b'' 2000] (init (demo ''a'')))"
proof -
  have h: "\<forall>e \<in> set [press ''ArrowLeft'' 3000, press ''c'' 4000]. key e \<noteq> ''Escape''"
    by (simp add: press_def)
  have f: "finished (run (demo ''a'') [press ''a'' 1000, press ''b'' 2000] (init (demo ''a'')))"
    by code_simp
  have l: "length (built (run (demo ''a'') [press ''a'' 1000, press ''b'' 2000] (init (demo ''a'')))) = 1"
    by code_simp
  show ?thesis
    using completion_at_most_once [OF h, of "demo ''a''"
        "run (demo ''a'') [press ''a'' 1000, press ''b'' 2000] (init (demo ''a''))"] h f l
    by (simp add: press_def)
qed

subsection \<open>A finished session is frozen\<close>

text \<open>
  Claim C10. Once the finished flag is set, a printable character, Enter or Tab changes
  neither the position nor any verdict, and the flag stays set (only a reset clears it).
\<close>

theorem finished_freezes_typing:
  assumes "finished s" and "writes e"
  shows "pos (handleKeyDown P e s) = pos s \<and> spans (handleKeyDown P e s) = spans s
       \<and> finished (handleKeyDown P e s)"
proof -
  have f: "finished (start_timer e s)" using assms(1) by simp
  from assms(2) consider "\<not> is_paste e" "key e = ''Enter''" | "\<not> is_paste e" "key e = ''Tab''"
    | "printable e"
    by (auto simp: writes_def)
  then show ?thesis
  proof cases
    case 1
    then show ?thesis using f by (simp add: handleKeyDown_Enter)
  next
    case 2
    then show ?thesis using f by (simp add: handleKeyDown_Tab)
  next
    case 3
    then show ?thesis using f by (simp add: handleKeyDown_printable)
  qed
qed


theorem finished_freezes_typing_witness:
  "finished (run (demo ''a'') [press ''a'' 1000, press ''b'' 2000] (init (demo ''a'')))
   \<and> writes (press ''Tab'' 3000)
   \<and> pos (handleKeyDown (demo ''a'') (press ''Tab'' 3000)
         (run (demo ''a'') [press ''a'' 1000, press ''b'' 2000] (init (demo ''a''))))
     = pos (run (demo ''a'') [press ''a'' 1000, press ''b'' 2000] (init (demo ''a'')))"
proof -
  have f: "finished (run (demo ''a'') [press ''a'' 1000, press ''b'' 2000] (init (demo ''a'')))"
    by code_simp
  have w: "writes (press ''Tab'' 3000)"
    by (simp add: writes_def press_def is_paste_def)
  show ?thesis
    using finished_freezes_typing [OF f w, of "demo ''a''"] f w by simp
qed

subsection \<open>Writing a character\<close>

lemma finishIfNeeded_early:
  "rp < length (chars P) \<Longrightarrow> finishIfNeeded P rp e s = s"
  by (simp add: finishIfNeeded_def)

lemma writeChar_beyond:
  assumes "\<not> finished s" and "span_at (spans s) rp = None"
  shows "writeChar P rp e ch s = finishIfNeeded P rp e (s\<lparr>pos := pos s + 1\<rparr>)"
  using assms by (simp add: writeChar_def)

lemma writeChar_span:
  assumes "\<not> finished s" and "span_at (spans s) rp = Some sp"
  shows "writeChar P rp e ch s =
     finishIfNeeded P rp e
       (s\<lparr>spans := (spans s)[rp := Some (sp\<lparr>typedChar := Some ch,
              correct := (Some ch = char_at (chars P) rp),
              incorrect := \<not> (Some ch = char_at (chars P) rp)\<rparr>)],
          pos := rp + 1\<rparr>)"
  using assms by (simp add: writeChar_def Let_def)

lemma span_at_Some_less: "span_at ss i = Some sp \<Longrightarrow> i < length ss \<and> ss ! i = Some sp"
  by (simp add: span_at_def split: if_splits)

lemma writeChar_twice:
  assumes "span_at (spans s) rp = None \<longrightarrow> length (chars P) \<le> rp"
  shows "writeChar P rp e ch (writeChar P rp e ch s) = writeChar P rp e ch s"
proof (cases "finished (writeChar P rp e ch s)")
  case True
  then show ?thesis by simp
next
  case False
  then have nf: "\<not> finished s" and lt: "rp < length (chars P)"
    by (simp_all add: finished_writeChar)
  with assms obtain sp where sp: "span_at (spans s) rp = Some sp"
    by (cases "span_at (spans s) rp") auto
  let ?sp = "sp\<lparr>typedChar := Some ch, correct := (Some ch = char_at (chars P) rp),
                incorrect := \<not> (Some ch = char_at (chars P) rp)\<rparr>"
  let ?s = "s\<lparr>spans := (spans s)[rp := Some ?sp], pos := rp + 1\<rparr>"
  have 1: "writeChar P rp e ch s = ?s"
    using writeChar_span [OF nf sp] lt by (simp add: finishIfNeeded_early)
  have 2: "span_at (spans ?s) rp = Some ?sp"
    using span_at_Some_less [OF sp] by (simp add: span_at_def)
  have 3: "\<not> finished ?s" using nf by simp
  have "writeChar P rp e ch ?s = ?s"
    using writeChar_span [OF 3 2, of P e ch] lt by (simp add: finishIfNeeded_early)
  with 1 show ?thesis by simp
qed

lemma span_at_writeChar_None:
  "span_at (spans (writeChar P rp e ch s)) rp = None \<longleftrightarrow> span_at (spans s) rp = None"
  by (auto simp: writeChar_def Let_def span_at_def split: option.splits)

lemma tab_is_one_space:
  assumes "span_at (spans s) rp = None \<longrightarrow> length (chars P) \<le> rp"
  shows "writeChar P rp e ch (writeChar P rp e ch (writeChar P rp e ch (writeChar P rp e ch s)))
       = writeChar P rp e ch s"
  using assms by (simp add: writeChar_twice)

subsection \<open>Keystrokes at the end of the prompt\<close>

text \<open>
  Claim C3, as amended. In a state whose position equals the prompt length, a printable
  keystroke neither extends nor alters the verdict array; it is not ignored while the
  session is unfinished, where it moves the position one past the end of the prompt, and
  it leaves position and verdicts unchanged once the session is finished.
\<close>

theorem overflow_keystroke:
  assumes "pos s = length (chars P)" and "length (spans s) = length (chars P)" and "printable e"
  shows "spans (handleKeyDown P e s) = spans s
       \<and> (\<not> finished s \<longrightarrow> pos (handleKeyDown P e s) = pos s + 1)
       \<and> (finished s \<longrightarrow> pos (handleKeyDown P e s) = pos s)"
proof -
  have none: "span_at (spans (start_timer e s)) (pos s) = None"
    using assms(1,2) by (simp add: span_at_def)
  show ?thesis
  proof (cases "finished s")
    case True
    then show ?thesis using assms(3) by (simp add: handleKeyDown_printable)
  next
    case False
    then have "\<not> finished (start_timer e s)" by simp
    from writeChar_beyond [OF this none] False show ?thesis
      using assms(3) by (simp add: handleKeyDown_printable)
  qed
qed

theorem overflow_keystroke_counterexample:
  "pos (run (demo ''a'') [press ''a'' 1000] (init (demo ''a''))) = length (chars (demo ''a''))
   \<and> printable (press ''b'' 2000)
   \<and> pos (handleKeyDown (demo ''a'') (press ''b'' 2000)
             (run (demo ''a'') [press ''a'' 1000] (init (demo ''a'')))) = 2
   \<and> \<not> finished (run (demo ''a'') [press ''a'' 1000] (init (demo ''a'')))
   \<and> finished (handleKeyDown (demo ''a'') (press ''b'' 2000)
             (run (demo ''a'') [press ''a'' 1000] (init (demo ''a''))))"
  by code_simp

theorem overflow_keystroke_witness:
  "pos (run (demo ''a'') [press ''a'' 1000] (init (demo ''a''))) = length (chars (demo ''a''))
   \<and> length (spans (run (demo ''a'') [press ''a'' 1000] (init (demo ''a'')))) = length (chars (demo ''a''))
   \<and> printable (press ''b'' 2000)
   \<and> \<not> finished (run (demo ''a'') [press ''a'' 1000] (init (demo ''a'')))
   \<and> pos (handleKeyDown (demo ''a'') (press ''b'' 2000)
             (run (demo ''a'') [press ''a'' 1000] (init (demo ''a''))))
      = pos (run (demo ''a'') [press ''a'' 1000] (init (demo ''a''))) + 1
   \<and> finished (run (demo ''a'') [press ''a'' 1000, press ''b'' 2000, press ''Backspace'' 3000]
         (init (demo ''a'')))
   \<and> pos (run (demo ''a'') [press ''a'' 1000, press ''b'' 2000, press ''Backspace'' 3000]
         (init (demo ''a''))) = length (chars (demo ''a''))
   \<and> pos (handleKeyDown (demo ''a'') (press ''b'' 2000)
             (run (demo ''a'') [press ''a'' 1000, press ''b'' 2000, press ''Backspace'' 3000]
                (init (demo ''a''))))
      = pos (run (demo ''a'') [press ''a'' 1000, press ''b'' 2000, press ''Backspace'' 3000]
                (init (demo ''a'')))"
proof -
  let ?s = "run (demo ''a'') [press ''a'' 1000] (init (demo ''a''))"
  let ?t = "run (demo ''a'') [press ''a'' 1000, press ''b'' 2000, press ''Backspace'' 3000]
              (init (demo ''a''))"
  have 1: "pos ?s = length (chars (demo ''a''))" by code_simp
  have 2: "length (spans ?s) = length (chars (demo ''a''))" by code_simp
  have 3: "printable (press ''b'' 2000)" by code_simp
  have 4: "\<not> finished ?s" by code_simp
  have 5: "pos ?t = length (chars (demo ''a''))" by code_simp
  have 6: "length (spans ?t) = length (chars (demo ''a''))" by code_simp
  have 7: "finished ?t" by code_simp
  show ?thesis
    using overflow_keystroke [OF 1 2 3] overflow_keystroke [OF 5 6 3] 1 2 3 4 5 7 by simp
qed

subsection \<open>The start timestamp\<close>

lemma fullReset_fields [simp]:
  "startTs (fullReset s) = None"
  "finished (fullReset s) = False"
  "pos (fullReset s) = 0"
  "built (fullReset s) = built s"
  "posted (fullReset s) = posted s"
  "spans (fullReset s) = map (map_option clear_span) (spans s)"
  by (simp_all add: fullReset_def)

lemma startTs_handleKeyDown:
  assumes "\<not> is_paste e" and "key e \<noteq> ''Escape''"
  shows "startTs (handleKeyDown P e s) = startTs (start_timer e s)"
proof (cases e rule: key_cases)
  case Backspace
  then show ?thesis by (simp add: handleKeyDown_Backspace split: option.splits)
next
  case Enter
  then show ?thesis by (simp add: handleKeyDown_Enter)
next
  case Tab
  then show ?thesis by (simp add: handleKeyDown_Tab)
next
  case printable
  then show ?thesis by (simp add: handleKeyDown_printable)
next
  case other
  then show ?thesis by (simp add: handleKeyDown_other)
qed (use assms in simp_all)

text \<open>
  Claim C6, as amended. The start timestamp is set, to the clock reading of the handler, by
  the first key event of a session that is neither the rejected paste shortcut nor Escape,
  whatever the key: also by Backspace at position zero and by unrecognized keys such as
  arrows or lone modifiers. A rejected paste changes nothing. Once set (to a reading other
  than 0), the timestamp is kept by every key but Escape, which clears it; Backspace never
  changes the finished flag.
\<close>

theorem start_timestamp_rules:
  "(is_paste e \<longrightarrow> handleKeyDown P e s = s)
   \<and> (\<not> is_paste e \<and> key e \<noteq> ''Escape'' \<and> startTs s = None
        \<longrightarrow> startTs (handleKeyDown P e s) = Some (now_down e))
   \<and> (startTs s = Some t \<and> t \<noteq> 0 \<and> key e \<noteq> ''Escape''
        \<longrightarrow> startTs (handleKeyDown P e s) = Some t)
   \<and> (key e = ''Escape'' \<longrightarrow> startTs (handleKeyDown P e s) = None)
   \<and> (key e = ''Backspace'' \<longrightarrow> finished (handleKeyDown P e s) = finished s)"
proof (intro conjI impI)
  assume "is_paste e"
  then show "handleKeyDown P e s = s" by (rule handleKeyDown_paste)
next
  assume "\<not> is_paste e \<and> key e \<noteq> ''Escape'' \<and> startTs s = None"
  then show "startTs (handleKeyDown P e s) = Some (now_down e)"
    by (simp add: startTs_handleKeyDown start_timer_def truthy_ts_def)
next
  assume a: "startTs s = Some t \<and> t \<noteq> 0 \<and> key e \<noteq> ''Escape''"
  show "startTs (handleKeyDown P e s) = Some t"
  proof (cases "is_paste e")
    case True
    with a show ?thesis by (simp add: handleKeyDown_paste)
  next
    case False
    with a show ?thesis
      by (simp add: startTs_handleKeyDown start_timer_def truthy_ts_def)
  qed
next
  assume "key e = ''Escape''"
  then show "startTs (handleKeyDown P e s) = None"
    by (simp add: handleKeyDown_Escape)
next
  assume b: "key e = ''Backspace''"
  show "finished (handleKeyDown P e s) = finished s"
  proof (cases "is_paste e")
    case True
    then show ?thesis by (simp add: handleKeyDown_paste)
  next
    case False
    with b show ?thesis
      by (simp add: handleKeyDown_Backspace split: option.splits)
  qed
qed

theorem start_timestamp_rules_counterexample:
  "startTs (init (demo ''ab'')) = None
   \<and> startTs (handleKeyDown (demo ''ab'') (press ''ArrowLeft'' 1000) (init (demo ''ab''))) = Some 1000
   \<and> startTs (handleKeyDown (demo ''ab'') (press ''Shift'' 1000) (init (demo ''ab''))) = Some 1000
   \<and> pos (init (demo ''ab'')) = 0
   \<and> startTs (handleKeyDown (demo ''ab'') (press ''Backspace'' 1000) (init (demo ''ab''))) = Some 1000"
  by code_simp

theorem start_timestamp_rules_witness:
  "is_paste \<lparr>key = ''v'', ctrlKey = True, metaKey = False, now_down = 500, now_finish = 500\<rparr>
   \<and> handleKeyDown (demo ''ab'')
        \<lparr>key = ''v'', ctrlKey = True, metaKey = False, now_down = 500, now_finish = 500\<rparr>
        (init (demo ''ab'')) = init (demo ''ab'')
   \<and> \<not> is_paste (press ''ArrowLeft'' 1000) \<and> key (press ''ArrowLeft'' 1000) \<noteq> ''Escape''
   \<and> startTs (init (demo ''ab'')) = None
   \<and> startTs (handleKeyDown (demo ''ab'') (press ''ArrowLeft'' 1000) (init (demo ''ab''))) = Some 1000
   \<and> startTs (run (demo ''ab'') [press ''a'' 1000] (init (demo ''ab''))) = Some 1000
   \<and> startTs (handleKeyDown (demo ''ab'') (press ''Backspace'' 2000)
        (run (demo ''ab'') [press ''a'' 1000] (init (demo ''ab'')))) = Some 1000
   \<and> finished (handleKeyDown (demo ''ab'') (press ''Backspace'' 2000)
        (run (demo ''ab'') [press ''a'' 1000] (init (demo ''ab''))))
     = finished (run (demo ''ab'') [press ''a'' 1000] (init (demo ''ab'')))
   \<and> startTs (handleKeyDown (demo ''ab'') (press ''Escape'' 2000)
        (run (demo ''ab'') [press ''a'' 1000] (init (demo ''ab'')))) = None"
proof -
  let ?v = "\<lparr>key = ''v'', ctrlKey = True, metaKey = False, now_down = 500, now_finish = 500\<rparr>"
  let ?s = "run (demo ''ab'') [press ''a'' 1000] (init (demo ''ab''))"
  have 1: "is_paste ?v" by (simp add: is_paste_def)
  have 2: "\<not> is_paste (press ''ArrowLeft'' 1000) \<and> key (press ''ArrowLeft'' 1000) \<noteq> ''Escape''
           \<and> startTs (init (demo ''ab'')) = None"
    by (simp add: is_paste_def press_def init_def)
  have 3: "startTs ?s = Some 1000" by code_simp
  have 4: "key (press ''Backspace'' 2000) = ''Backspace'' \<and> key (press ''Backspace'' 2000) \<noteq> ''Escape''"
    by (simp add: press_def)
  have 5: "key (press ''Escape'' 2000) = ''Escape''" by (simp add: press_def)
  show ?thesis
    using start_timestamp_rules [of ?v "demo ''ab''" "init (demo ''ab'')" 0]
      start_timestamp_rules [of "press ''ArrowLeft'' 1000" "demo ''ab''" "init (demo ''ab'')" 0]
      start_timestamp_rules [of "press ''Backspace'' 2000" "demo ''ab''" ?s 1000]
      start_timestamp_rules [of "press ''Escape'' 2000" "demo ''ab''" ?s 1000]
      1 2 3 4 5
    by (simp add: press_def)
qed

subsection \<open>The state after a reset\<close>

lemma init_fields [simp]:
  "pos (init P) = 0" "spans (init P) = render_spans (chars P)" "startTs (init P) = None"
  "finished (init P) = False" "built (init P) = []" "posted (init P) = []"
  by (simp_all add: init_def)

subsection \<open>The Tab key\<close>

lemma handleKeyDown_Tab_one:
  assumes "\<not> is_paste e" and "key e = ''Tab''"
    and "span_at (spans s) (pos s) = None \<longrightarrow> length (chars P) \<le> pos s"
  shows "handleKeyDown P e s = writeChar P (pos s) e CHR '' '' (start_timer e s)"
proof -
  have "span_at (spans (start_timer e s)) (pos s) = None \<longrightarrow> length (chars P) \<le> pos s"
    using assms(3) by simp
  from tab_is_one_space [OF this] assms(1,2) show ?thesis
    by (simp add: handleKeyDown_Tab)
qed

lemma Tab_advances_by_one:
  assumes "\<not> is_paste e" and "key e = ''Tab''" and "\<not> finished s"
    and "pos s < length (chars P)" and "span_at (spans s) (pos s) \<noteq> None"
  shows "pos (handleKeyDown P e s) = pos s + 1"
proof -
  from assms(5) obtain sp where sp: "span_at (spans (start_timer e s)) (pos s) = Some sp"
    by auto
  have nf: "\<not> finished (start_timer e s)" using assms(3) by simp
  show ?thesis
    using handleKeyDown_Tab_one [OF assms(1,2), of s P] assms(5)
      writeChar_span [OF nf sp, of P e "CHR '' ''"]
    by simp
qed

text \<open>
  Claim C2 fails on the code. On the prompt of four spaces and an \<open>x\<close>, one Tab at the
  start moves the position to 1, not to 4, and marks only the first space: the four calls
  of \<open>writeChar\<close> all read the position of the same render.
\<close>

theorem tab_on_four_spaces:
  "pos (init (demo ''    x'')) = 0
   \<and> pos (handleKeyDown (demo ''    x'') (press ''Tab'' 1000) (init (demo ''    x''))) = 1
   \<and> map is_typed (spans (handleKeyDown (demo ''    x'') (press ''Tab'' 1000)
                              (init (demo ''    x''))))
      = [True, False, False, False, False]
   \<and> correctCount (spans (handleKeyDown (demo ''    x'') (press ''Tab'' 1000)
                              (init (demo ''    x'')))) = 1
   \<and> pos (run (demo ''    x'')
             [press '' '' 1000, press '' '' 1100, press '' '' 1200, press '' '' 1300]
             (init (demo ''    x''))) = 4"
  by code_simp

subsection \<open>Typing the prompt\<close>

text \<open>
  Claim C5 fails on the code. After exactly the characters of the prompt \<open>ab\<close> the
  position is at the end, but the session is not finished and no attempt has been built:
  \<open>finishIfNeeded\<close> compares the position of the render, which is still below the length
  when the last character is written. One more keystroke fires completion. On a prompt
  with a newline, the attempt built then lacks the newline, whose span has no \<open>ref\<close>.
\<close>

theorem typing_the_prompt:
  "pos (run (demo ''ab'') [press ''a'' 1000, press ''b'' 2000] (init (demo ''ab''))) = 2
   \<and> \<not> finished (run (demo ''ab'') [press ''a'' 1000, press ''b'' 2000] (init (demo ''ab'')))
   \<and> built (run (demo ''ab'') [press ''a'' 1000, press ''b'' 2000] (init (demo ''ab''))) = []
   \<and> map rawText (built (run (demo ''ab'') [press ''a'' 1000, press ''b'' 2000, press ''c'' 3000]
                              (init (demo ''ab'')))) = [''ab'']
   \<and> map rawText (built (run (demo [CHR ''a'', CHR 0x0A, CHR ''b''])
         [press ''a'' 1000, press ''Enter'' 2000, press ''b'' 3000, press ''c'' 4000]
         (init (demo [CHR ''a'', CHR 0x0A, CHR ''b''])))) = [''ab'']"
  by code_simp

subsection \<open>Position and verdicts in lockstep\<close>

lemma render_spans_no_newline:
  assumes "CHR 0x0A \<notin> set cs"
  shows "render_spans cs = replicate (length cs) (Some blank)"
  using assms by (induction cs) (auto simp: render_spans_def)

lemma lockstep_init:
  assumes "CHR 0x0A \<notin> set (chars P)"
  shows "lockstep P (init P)"
  using assms
  by (simp add: lockstep_def render_spans_no_newline is_typed_def blank_def)

lemma lockstep_start_timer [simp]: "lockstep P (start_timer e s) = lockstep P s"
  by (simp add: lockstep_def)

lemma lockstep_span_at:
  assumes "lockstep P s"
  shows "span_at (spans s) i = None \<longleftrightarrow> length (chars P) \<le> i"
  using assms by (auto simp: lockstep_def span_at_def)

lemma is_typed_clear [simp]: "\<not> is_typed (Some (clear_span sp))"
  by (simp add: is_typed_def clear_span_def)

lemma lockstep_fullReset:
  assumes "lockstep P s"
  shows "lockstep P (fullReset s)"
proof -
  have "spans s ! i \<noteq> None \<Longrightarrow> \<not> is_typed (map_option clear_span (spans s ! i))" for i
    by (cases "spans s ! i") simp_all
  with assms show ?thesis
    by (simp add: lockstep_def)
qed

lemma lockstep_writeChar:
  assumes "lockstep P s"
  shows "lockstep P (writeChar P (pos s) e ch s)"
proof (cases "finished s")
  case True
  with assms show ?thesis by simp
next
  case nf: False
  show ?thesis
  proof (cases "span_at (spans s) (pos s)")
    case None
    then have ge: "length (chars P) \<le> pos s"
      using lockstep_span_at [OF assms] by simp
    with assms nf have eq: "pos s = length (chars P)"
      by (auto simp: lockstep_def)
    have "finished (writeChar P (pos s) e ch s)"
      using ge by (simp add: finished_writeChar)
    moreover have "pos (writeChar P (pos s) e ch s) = pos s + 1"
      and "spans (writeChar P (pos s) e ch s) = spans s"
      using writeChar_beyond [OF nf None, of P e ch] by simp_all
    ultimately show ?thesis
      using assms eq by (simp add: lockstep_def)
  next
    case (Some sp)
    then have lt: "pos s < length (chars P)"
      using lockstep_span_at [OF assms, of "pos s"] by simp
    let ?sp = "sp\<lparr>typedChar := Some ch, correct := (Some ch = char_at (chars P) (pos s)),
                 incorrect := \<not> (Some ch = char_at (chars P) (pos s))\<rparr>"
    have w: "writeChar P (pos s) e ch s = s\<lparr>spans := (spans s)[pos s := Some ?sp], pos := pos s + 1\<rparr>"
      using writeChar_span [OF nf Some, of P e ch] lt by (simp add: finishIfNeeded_early)
    have t: "is_typed (Some ?sp)" by (simp add: is_typed_def)
    show ?thesis
      unfolding w using assms lt t
      by (auto simp: lockstep_def nth_list_update less_Suc_eq)
  qed
qed

lemma lockstep_Backspace:
  assumes "lockstep P s" and "\<not> is_paste e" and "key e = ''Backspace''"
  shows "lockstep P (handleKeyDown P e s)"
proof (cases "pos s = 0")
  case True
  with assms show ?thesis by (simp add: handleKeyDown_Backspace)
next
  case False
  show ?thesis
  proof (cases "span_at (spans s) (pos s - 1)")
    case None
    then have "length (chars P) \<le> pos s - 1"
      using lockstep_span_at [OF assms(1)] by simp
    with assms(1) False have "pos s = length (chars P) + 1"
      by (auto simp: lockstep_def)
    with assms None False show ?thesis
      by (simp add: handleKeyDown_Backspace lockstep_def)
  next
    case (Some sp)
    then have lt: "pos s - 1 < length (chars P)"
      using lockstep_span_at [OF assms(1), of "pos s - 1"] by simp
    have "handleKeyDown P e s =
        start_timer e s\<lparr>spans := (spans s)[pos s - 1 := Some (clear_span sp)], pos := pos s - 1\<rparr>"
      using assms(2,3) Some False by (simp add: handleKeyDown_Backspace)
    then show ?thesis
      using assms(1) lt False
      by (auto simp: lockstep_def nth_list_update)
  qed
qed

lemma lockstep_handleKeyDown:
  assumes "lockstep P s"
  shows "lockstep P (handleKeyDown P e s)"
proof -
  have t: "lockstep P (start_timer e s)" using assms by simp
  have w: "lockstep P (writeChar P (pos s) e ch (start_timer e s))" for ch
    using lockstep_writeChar [OF t, of e ch] by simp
  have one: "span_at (spans s) (pos s) = None \<longrightarrow> length (chars P) \<le> pos s"
    using lockstep_span_at [OF assms] by simp
  show ?thesis
  proof (cases e rule: key_cases)
    case paste
    with assms show ?thesis by (simp add: handleKeyDown_paste)
  next
    case Backspace
    with assms show ?thesis by (simp add: lockstep_Backspace)
  next
    case Enter
    then show ?thesis by (simp add: handleKeyDown_Enter w)
  next
    case Tab
    then show ?thesis by (simp add: handleKeyDown_Tab_one [OF _ _ one] w)
  next
    case printable
    then show ?thesis by (simp add: handleKeyDown_printable w)
  next
    case Escape
    then show ?thesis using t by (simp add: handleKeyDown_Escape lockstep_fullReset)
  next
    case other
    then show ?thesis using t by (simp add: handleKeyDown_other)
  qed
qed

lemma lockstep_run:
  assumes "lockstep P s"
  shows "lockstep P (run P es s)"
  using assms
  by (induction es arbitrary: s) (simp_all add: run_Nil run_Cons lockstep_handleKeyDown)


subsection \<open>Renders\<close>

lemma report_fullReset [simp]: "report (fullReset s) = None"
  by (simp add: fullReset_def)

lemma attach_frame [simp]:
  "pos (attach P s) = pos s" "finished (attach P s) = finished s" "report (attach P s) = report s"
  "built (attach P s) = built s" "posted (attach P s) = posted s" "startTs (attach P s) = startTs s"
  "length (spans (attach P s)) = length (chars P)"
  by (simp_all add: attach_def)





lemma rerender_frame [simp]:
  "pos (rerender P s s') = pos s'" "finished (rerender P s s') = finished s'"
  "report (rerender P s s') = report s'" "built (rerender P s s') = built s'"
  "posted (rerender P s s') = posted s'" "startTs (rerender P s s') = startTs s'"
  by (simp_all add: rerender_def)

lemma shown_rerender [simp]: "shown (rerender P s s') = shown s'"
  by (simp add: shown_def)


lemma shown_finishIfNeeded: "shown s \<Longrightarrow> shown (finishIfNeeded P rp e s)"
  by (simp add: shown_def finishIfNeeded_def Let_def)


lemma shown_start_timer [simp]: "shown (start_timer e s) = shown s"
  by (simp add: shown_def)

lemma shown_fullReset [simp]: "shown (fullReset s)"
  by (simp add: shown_def fullReset_def)


subsection \<open>Sessions after a reset\<close>



lemma session_Nil: "session P [] s = s"
  by (simp add: session_def)

lemma session_Cons: "session P (ev # evs) s = session P evs (step P ev s)"
  by (simp add: session_def)




subsection \<open>Sessions from the mount\<close>






lemma shown_attach [simp]: "shown (attach P s) = shown s"
  by (simp add: shown_def)




lemma below_start_timer [simp]: "below P (start_timer e s) = below P s"
  by (simp add: below_def attached_def)





lemma writeChar_wiped:
  assumes "spans s = []" and "\<not> finished s" and "0 < length (chars P)"
  shows "writeChar P 0 e ch s = s\<lparr>pos := pos s + 1\<rparr>"
proof -
  have "span_at (spans s) 0 = None" using assms(1) by (simp add: span_at_def)
  from writeChar_beyond [OF assms(2) this, of P e ch] show ?thesis
    using assms(3) by (simp add: finishIfNeeded_early)
qed


lemma rerender_same: "pos s' = pos s \<Longrightarrow> report s' = report s \<Longrightarrow> rerender P s s' = s'"
  by (simp add: rerender_def)

lemma rerender_attach:
  "pos s' \<noteq> pos s \<Longrightarrow> report s' = None \<Longrightarrow> rerender P s s' = attach P s'"
  by (simp add: rerender_def)

lemma report_start_timer [simp]: "report (start_timer e s) = report s"
  by (simp add: start_timer_def)












lemma attach_wiped:
  assumes "spans s = []"
  shows "spans (attach P s) = render_spans (chars P)"
  by (rule nth_equalityI) (simp_all add: attach_def render_spans_def span_at_def assms)

lemma attach_rendered:
  assumes "spans s = render_spans (chars P)"
  shows "attach P s = s"
proof -
  have "spans (attach P s) = render_spans (chars P)"
    by (rule nth_equalityI) (simp_all add: attach_def render_spans_def span_at_def assms)
  then show ?thesis using assms by (simp add: attach_def)
qed

lemma clear_rendered: "map (map_option clear_span) (render_spans cs) = render_spans cs"
  by (simp add: render_spans_def clear_span_def blank_def)

text \<open>The state \<open>init\<close> is reached from the mount by a key and Escape.\<close>

lemma init_after_reset:
  assumes "chars P \<noteq> []"
  shows "session P [KeyDown (press ''x'' t), KeyDown (press ''Escape'' t')] (mounted P) = init P"
proof -
  let ?e = "press ''x'' t"
  let ?s1 = "(start_timer ?e (mounted P))\<lparr>pos := 1\<rparr>"
  have p: "printable ?e" by (simp add: printable_def press_def)
  have "writeChar P 0 ?e (hd (key ?e)) (start_timer ?e (mounted P)) = ?s1"
    using assms by (subst writeChar_wiped) (simp_all add: mounted_def)
  then have h1: "handleKeyDown P ?e (mounted P) = ?s1"
    using handleKeyDown_printable [OF p, of P "mounted P"] by (simp add: mounted_def)
  have r1: "rerender P (mounted P) ?s1 = attach P ?s1"
    by (simp add: rerender_attach mounted_def)
  have sp1: "spans (attach P ?s1) = render_spans (chars P)"
    by (rule attach_wiped) (simp add: mounted_def)
  let ?s2 = "attach P ?s1"
  have step1: "step P (KeyDown ?e) (mounted P) = ?s2"
    using h1 r1 by (simp add: mounted_def)
  have k: "key (press ''Escape'' t') = ''Escape''" by (simp add: press_def)
  let ?s3 = "fullReset (start_timer (press ''Escape'' t') ?s2)"
  have h2: "handleKeyDown P (press ''Escape'' t') ?s2 = ?s3"
    using handleKeyDown_Escape [OF k] by simp
  have sp3: "spans ?s3 = render_spans (chars P)"
    using sp1 by (simp add: clear_rendered)
  have r2: "rerender P ?s2 ?s3 = ?s3"
    using attach_rendered [OF sp3] by (simp add: rerender_def)
  have "?s3 = init P"
    using sp3 by (simp add: init_def fullReset_def start_timer_def mounted_def attach_def)
  then show ?thesis
    using step1 h2 r2 by (simp add: session_def mounted_def)
qed




subsection \<open>The empty prompt\<close>

lemma mounted_fields [simp]:
  "pos (mounted P) = 0" "spans (mounted P) = []" "startTs (mounted P) = None"
  "finished (mounted P) = False" "report (mounted P) = None" "built (mounted P) = []"
  "posted (mounted P) = []"
  by (simp_all add: mounted_def)

lemma idle_step:
  assumes "\<not> writing ev"
    and "spans s = []" "pos s = 0" "\<not> finished s" "report s = None" "built s = []" "posted s = []"
  shows "spans (step P ev s) = [] \<and> pos (step P ev s) = 0 \<and> \<not> finished (step P ev s)
       \<and> report (step P ev s) = None \<and> built (step P ev s) = [] \<and> posted (step P ev s) = []"
proof (cases ev)
  case ResetClick
  then show ?thesis
    using assms by (simp add: rerender_same)
next
  case (KeyDown e)
  then have nw: "\<not> writes e" using assms(1) by simp
  have "spans (handleKeyDown P e s) = [] \<and> pos (handleKeyDown P e s) = 0
      \<and> \<not> finished (handleKeyDown P e s) \<and> report (handleKeyDown P e s) = None
      \<and> built (handleKeyDown P e s) = [] \<and> posted (handleKeyDown P e s) = []"
  proof (cases e rule: key_cases)
    case paste
    then show ?thesis using assms by (simp add: handleKeyDown_paste)
  next
    case Backspace
    then show ?thesis using assms by (simp add: handleKeyDown_Backspace)
  next
    case Escape
    then show ?thesis using assms by (simp add: handleKeyDown_Escape)
  next
    case other
    then show ?thesis using assms by (simp add: handleKeyDown_other)
  qed (use nw in \<open>simp_all add: writes_def printable_key\<close>)
  then show ?thesis
    using KeyDown assms by (simp add: rerender_same)
qed

lemma idle_session:
  assumes "\<forall>ev \<in> set evs. \<not> writing ev"
    and "spans s = []" "pos s = 0" "\<not> finished s" "report s = None" "built s = []" "posted s = []"
  shows "spans (session P evs s) = [] \<and> pos (session P evs s) = 0
       \<and> \<not> finished (session P evs s) \<and> report (session P evs s) = None
       \<and> built (session P evs s) = [] \<and> posted (session P evs s) = []"
  using assms
proof (induction evs arbitrary: s)
  case Nil
  then show ?case by (simp add: session_Nil)
next
  case (Cons ev evs)
  have "\<not> writing ev" using Cons.prems(1) by simp
  from idle_step [OF this Cons.prems(2-7), of P] show ?case
    using Cons.IH [of "step P ev s"] Cons.prems(1) by (simp add: session_Cons)
qed

text \<open>
  Claim C8, as amended. For a prompt of length zero nothing completes on load: the mounted
  component is unfinished and holds no attempt, and it stays so under key events that write
  no character and under reset clicks. The first printable character, Enter or Tab after
  them completes the session with an attempt whose typed text is empty, whose accuracy is
  100 and whose wpm is 0; its duration is the clock reading at completion minus the start
  timestamp, which is the one that an earlier key of the session has set, if any, and the
  reading of this key event otherwise (the duration is 0 if that reading is 0).
\<close>

theorem empty_prompt_completion:
  assumes "chars P = []" and "\<forall>ev \<in> set evs. \<not> writing ev" and "s = session P evs (mounted P)"
  shows "\<not> finished s \<and> built s = [] \<and> posted s = []
       \<and> (writes e \<longrightarrow> finished (step P (KeyDown e) s)
             \<and> built (step P (KeyDown e) s) =
                 [\<lparr>user = current_user P, problemId = problem_id P, wpm = 0, accuracy = 100,
                   rawText = [],
                   durationMs =
                     (if truthy_ts (startTs s) then now_finish e - the (startTs s)
                      else if now_down e = 0 then 0 else now_finish e - now_down e)\<rparr>])"
proof -
  have idle: "spans s = []" "pos s = 0" "\<not> finished s" "report s = None" "built s = []"
    "posted s = []"
    using idle_session [OF assms(2), of "mounted P" P] assms(3) by simp_all
  let ?t = "start_timer e s"
  let ?a = "\<lparr>user = current_user P, problemId = problem_id P, wpm = 0, accuracy = 100,
             rawText = [],
             durationMs =
               (if truthy_ts (startTs s) then now_finish e - the (startTs s)
                else if now_down e = 0 then 0 else now_finish e - now_down e)\<rparr>"
  have w: "finished (writeChar P 0 e ch ?t) \<and> built (writeChar P 0 e ch ?t) = [?a]" for ch
    using assms(1) idle
    by (simp add: writeChar_def span_at_def finishIfNeeded_def Let_def
        typedStr_def calcAccuracy_def start_timer_def truthy_ts_def)
  have tab: "span_at (spans ?t) 0 = None \<longrightarrow> length (chars P) \<le> 0"
    using assms(1) by simp
  have "finished (handleKeyDown P e s) \<and> built (handleKeyDown P e s) = [?a]" if "writes e"
  proof -
    from that consider "\<not> is_paste e" "key e = ''Enter''" | "\<not> is_paste e" "key e = ''Tab''"
      | "printable e"
      by (auto simp: writes_def)
    then show ?thesis
    proof cases
      case 1
      then show ?thesis using w idle(2) by (simp add: handleKeyDown_Enter)
    next
      case 2
      then show ?thesis
        using tab_is_one_space [OF tab, of e "CHR '' ''"] w idle(2)
        by (simp add: handleKeyDown_Tab)
    next
      case 3
      then show ?thesis using w idle(2) by (simp add: handleKeyDown_printable)
    qed
  qed
  then show ?thesis using idle by simp
qed

theorem empty_prompt_completion_counterexample:
  "length (chars (demo [])) = 0
   \<and> \<not> finished (mounted (demo [])) \<and> built (mounted (demo [])) = []
   \<and> posted (mounted (demo [])) = []
   \<and> \<not> finished (session (demo []) [KeyDown (press ''ArrowLeft'' 1000)] (mounted (demo [])))
   \<and> built (session (demo []) [KeyDown (press ''ArrowLeft'' 1000)] (mounted (demo []))) = []
   \<and> map durationMs (built (session (demo [])
        [KeyDown (press ''ArrowLeft'' 1000), KeyDown (press ''x'' 5000)] (mounted (demo []))))
       = [4000]"
  by code_simp

theorem empty_prompt_completion_witness:
  "chars (demo []) = [] \<and> \<not> writing (KeyDown (press ''ArrowLeft'' 1000))
   \<and> writes (press ''x'' 5000)
   \<and> \<not> finished (session (demo []) [KeyDown (press ''ArrowLeft'' 1000)] (mounted (demo [])))
   \<and> built (step (demo []) (KeyDown (press ''x'' 5000))
        (session (demo []) [KeyDown (press ''ArrowLeft'' 1000)] (mounted (demo [])))) =
        [\<lparr>user = ''anon'', problemId = ''p1'', wpm = 0, accuracy = 100, rawText = [],
          durationMs = 4000\<rparr>]
   \<and> built (step (demo []) (KeyDown (press ''x'' 5000)) (mounted (demo []))) =
        [\<lparr>user = ''anon'', problemId = ''p1'', wpm = 0, accuracy = 100, rawText = [],
          durationMs = 0\<rparr>]"
proof -
  let ?s = "session (demo []) [KeyDown (press ''ArrowLeft'' 1000)] (mounted (demo []))"
  have 1: "chars (demo []) = []" by (simp add: chars_def demo_def)
  have 2: "\<forall>ev \<in> set [KeyDown (press ''ArrowLeft'' 1000)]. \<not> writing ev"
    by (simp add: writes_def printable_def press_def is_paste_def)
  have 3: "writes (press ''x'' 5000)" by (simp add: writes_def printable_def press_def is_paste_def)
  have 4: "startTs ?s = Some 1000" by code_simp
  have 5: "\<forall>ev \<in> set []. \<not> writing ev" by simp
  have 6: "mounted (demo []) = session (demo []) [] (mounted (demo []))"
    by (simp add: session_Nil)
  show ?thesis
    using empty_prompt_completion [OF 1 2 refl, of "press ''x'' 5000"]
      empty_prompt_completion [OF 1 5 6, of "press ''x'' 5000"] 1 2 3 4
    by (simp add: current_user_def demo_def press_def truthy_ts_def)
qed

subsection \<open>No completion while typing the prompt\<close>

lemma pos_writeChar_le:
  assumes "pos s = rp"
  shows "pos (writeChar P rp e ch s) \<le> rp + 1"
  using assms by (simp add: writeChar_def Let_def split: option.splits)

lemma writeChar_early:
  assumes "rp < length (chars P)"
  shows "finished (writeChar P rp e ch s) = finished s"
    and "built (writeChar P rp e ch s) = built s"
    and "posted (writeChar P rp e ch s) = posted s"
  using assms
  by (simp_all add: writeChar_def Let_def finishIfNeeded_early split: option.splits)

lemma handleKeyDown_early:
  assumes "pos s < length (chars P)" and "\<not> finished s"
  shows "\<not> finished (handleKeyDown P e s) \<and> built (handleKeyDown P e s) = built s
       \<and> posted (handleKeyDown P e s) = posted s"
proof (cases e rule: key_cases)
  case paste
  with assms show ?thesis by (simp add: handleKeyDown_paste)
next
  case Backspace
  with assms show ?thesis by (simp add: handleKeyDown_Backspace split: option.splits)
next
  case Enter
  with assms show ?thesis by (simp add: handleKeyDown_Enter writeChar_early)
next
  case Tab
  with assms show ?thesis by (simp add: handleKeyDown_Tab writeChar_early)
next
  case printable
  with assms show ?thesis by (simp add: handleKeyDown_printable writeChar_early)
next
  case Escape
  with assms show ?thesis by (simp add: handleKeyDown_Escape)
next
  case other
  with assms show ?thesis by (simp add: handleKeyDown_other)
qed

lemma pos_handleKeyDown_le:
  assumes "lockstep P s"
  shows "pos (handleKeyDown P e s) \<le> pos s + 1"
proof -
  have w: "pos (writeChar P (pos s) e ch (start_timer e s)) \<le> Suc (pos s)" for ch
    using pos_writeChar_le [of "start_timer e s" "pos s" P e ch] by simp
  have one: "span_at (spans s) (pos s) = None \<longrightarrow> length (chars P) \<le> pos s"
    using lockstep_span_at [OF assms] by simp
  show ?thesis
  proof (cases e rule: key_cases)
    case paste
    then show ?thesis by (simp add: handleKeyDown_paste)
  next
    case Backspace
    then show ?thesis by (auto simp: handleKeyDown_Backspace split: option.splits)
  next
    case Enter
    then show ?thesis by (simp add: handleKeyDown_Enter w)
  next
    case Tab
    then show ?thesis by (simp add: handleKeyDown_Tab_one [OF _ _ one] w)
  next
    case printable
    then show ?thesis by (simp add: handleKeyDown_printable w)
  next
    case Escape
    then show ?thesis by (simp add: handleKeyDown_Escape)
  next
    case other
    then show ?thesis by (simp add: handleKeyDown_other)
  qed
qed

text \<open>
  On a prompt all of whose characters have a span, a session that is not finished stays
  unfinished, and builds no attempt, for as many key events as characters remain: the
  keystroke that writes the last character of the prompt never completes the session.
\<close>

lemma no_completion_before_overflow:
  assumes "lockstep P s" and "\<not> finished s" and "pos s + length es \<le> length (chars P)"
  shows "\<not> finished (run P es s) \<and> built (run P es s) = built s
       \<and> posted (run P es s) = posted s"
  using assms
proof (induction es arbitrary: s)
  case Nil
  then show ?case by (simp add: run_Nil)
next
  case (Cons e es)
  let ?s = "handleKeyDown P e s"
  have lt: "pos s < length (chars P)" using Cons.prems(3) by simp
  have 1: "lockstep P ?s" using Cons.prems(1) by (rule lockstep_handleKeyDown)
  have 2: "\<not> finished ?s" "built ?s = built s" "posted ?s = posted s"
    using handleKeyDown_early [OF lt Cons.prems(2)] by simp_all
  have 3: "pos ?s + length es \<le> length (chars P)"
    using pos_handleKeyDown_le [OF Cons.prems(1), of e] Cons.prems(3) by simp
  show ?case
    using Cons.IH [OF 1 2(1) 3] 2 by (simp add: run_Cons)
qed

lemma no_completion_within_length:
  assumes "CHR 0x0A \<notin> set (chars P)" and "length es \<le> length (chars P)"
  shows "\<not> finished (run P es (init P)) \<and> built (run P es (init P)) = []"
  using no_completion_before_overflow [OF lockstep_init [OF assms(1)], of es] assms(2)
  by simp

section \<open>The leaderboard\<close>

lemma mset_place: "mset (place c x xs) = add_mset x (mset xs)"
  by (induction xs) auto

lemma mset_sort_cmp: "mset (sort_cmp c xs) = mset xs"
  by (induction xs) (auto simp: mset_place)

lemma set_place: "set (place c x xs) = insert x (set xs)"
  by (induction xs) auto

lemma ranks_before_iff: "ranks_before a b \<longleftrightarrow> compare_attempts a b \<le> 0"
  by (auto simp: ranks_before_def compare_attempts_def)

lemma ranks_before_total: "\<not> ranks_before a b \<Longrightarrow> ranks_before b a"
  by (auto simp: ranks_before_def)

lemma ranks_before_trans: "ranks_before a b \<Longrightarrow> ranks_before b c \<Longrightarrow> ranks_before a c"
  by (auto simp: ranks_before_def)

lemma sorted_place:
  "sorted_wrt ranks_before xs \<Longrightarrow> sorted_wrt ranks_before (place compare_attempts x xs)"
proof (induction xs)
  case Nil
  then show ?case by simp
next
  case (Cons y ys)
  show ?case
  proof (cases "compare_attempts x y \<le> 0")
    case True
    then have xy: "ranks_before x y" by (simp add: ranks_before_iff)
    have "\<forall>z\<in>set ys. ranks_before x z"
      using Cons.prems xy by (auto intro: ranks_before_trans)
    moreover have "place compare_attempts x (y # ys) = x # y # ys"
      using True by simp
    ultimately show ?thesis
      using xy Cons.prems by (simp del: place.simps)
  next
    case False
    then have yx: "ranks_before y x"
      using ranks_before_total by (simp add: ranks_before_iff)
    with Cons False show ?thesis by (auto simp: set_place)
  qed
qed

lemma sorted_sort_cmp: "sorted_wrt ranks_before (sort_cmp compare_attempts xs)"
  by (induction xs) (auto simp: sorted_place)

lemma sorted_wrt_take: "sorted_wrt R xs \<Longrightarrow> sorted_wrt R (take n xs)"
  by (metis append_take_drop_id sorted_wrt_append)

text \<open>
  Claim C9, as amended. For every stored list of attempts and every non-empty
  \<open>problemId\<close>, the leaderboard query returns at most 50 attempts, all of them stored
  attempts of that problem, ordered by wpm descending with ties broken by accuracy
  descending: it is the first 50 entries of the attempts of the problem in that order.
\<close>

theorem leaderboard_top50:
  assumes "pid \<noteq> []"
  shows "length (leaderboard (Some pid) db) \<le> 50
       \<and> (\<forall>a \<in> set (leaderboard (Some pid) db). a \<in> set db \<and> problemId a = pid)
       \<and> sorted_wrt ranks_before (leaderboard (Some pid) db)
       \<and> (\<exists>full. mset full = mset (filter (\<lambda>a. problemId a = pid) db)
                 \<and> sorted_wrt ranks_before full
                 \<and> leaderboard (Some pid) db = take 50 full)"
proof -
  let ?sel = "filter (\<lambda>a. problemId a = pid) db"
  let ?full = "sort_cmp compare_attempts ?sel"
  have lb: "leaderboard (Some pid) db = take 50 ?full"
    using assms by (simp add: leaderboard_def truthy_str_def)
  have m: "mset ?full = mset ?sel" by (rule mset_sort_cmp)
  have s: "sorted_wrt ranks_before ?full" by (rule sorted_sort_cmp)
  have "set ?full = set ?sel" using m by (metis set_mset_mset)
  then have mem: "\<forall>a \<in> set (take 50 ?full). a \<in> set db \<and> problemId a = pid"
    by (auto dest: in_set_takeD)
  have len: "length (take 50 ?full) \<le> 50" by simp
  have ex: "\<exists>full. mset full = mset ?sel \<and> sorted_wrt ranks_before full
                 \<and> take 50 ?full = take 50 full"
    using m s by blast
  show ?thesis
    unfolding lb using len mem sorted_wrt_take [OF s] ex by blast
qed

theorem leaderboard_top50_counterexample:
  "map problemId (leaderboard (Some [])
     [\<lparr>user = ''u'', problemId = ''p1'', wpm = 40, accuracy = 90, rawText = ''x'',
       durationMs = 300, attempt_id = ''i1'', createdAt = 1\<rparr>,
      \<lparr>user = ''v'', problemId = ''p2'', wpm = 90, accuracy = 100, rawText = ''y'',
       durationMs = 300, attempt_id = ''i2'', createdAt = 2\<rparr>])
   = [''p2'', ''p1'']"
  by (simp add: leaderboard_def truthy_str_def compare_attempts_def)

theorem leaderboard_top50_witness:
  "''p1'' \<noteq> []
   \<and> map attempt_id (leaderboard (Some ''p1'')
     [\<lparr>user = ''u'', problemId = ''p1'', wpm = 40, accuracy = 90, rawText = ''x'',
       durationMs = 300, attempt_id = ''i1'', createdAt = 1\<rparr>,
      \<lparr>user = ''v'', problemId = ''p2'', wpm = 90, accuracy = 100, rawText = ''y'',
       durationMs = 300, attempt_id = ''i2'', createdAt = 2\<rparr>,
      \<lparr>user = ''w'', problemId = ''p1'', wpm = 40, accuracy = 95, rawText = ''x'',
       durationMs = 300, attempt_id = ''i3'', createdAt = 3\<rparr>,
      \<lparr>user = ''z'', problemId = ''p1'', wpm = 55, accuracy = 70, rawText = ''x'',
       durationMs = 300, attempt_id = ''i4'', createdAt = 4\<rparr>]) = [''i4'', ''i3'', ''i1'']
   \<and> sorted_wrt ranks_before (leaderboard (Some ''p1'')
     [\<lparr>user = ''u'', problemId = ''p1'', wpm = 40, accuracy = 90, rawText = ''x'',
       durationMs = 300, attempt_id = ''i1'', createdAt = 1\<rparr>,
      \<lparr>user = ''v'', problemId = ''p2'', wpm = 90, accuracy = 100, rawText = ''y'',
       durationMs = 300, attempt_id = ''i2'', createdAt = 2\<rparr>,
      \<lparr>user = ''w'', problemId = ''p1'', wpm = 40, accuracy = 95, rawText = ''x'',
       durationMs = 300, attempt_id = ''i3'', createdAt = 3\<rparr>,
      \<lparr>user = ''z'', problemId = ''p1'', wpm = 55, accuracy = 70, rawText = ''x'',
       durationMs = 300, attempt_id = ''i4'', createdAt = 4\<rparr>])"
proof -
  have 1: "''p1'' \<noteq> []" by simp
  have 2: "map attempt_id (leaderboard (Some ''p1'')
     [\<lparr>user = ''u'', problemId = ''p1'', wpm = 40, accuracy = 90, rawText = ''x'',
       durationMs = 300, attempt_id = ''i1'', createdAt = 1\<rparr>,
      \<lparr>user = ''v'', problemId = ''p2'', wpm = 90, accuracy = 100, rawText = ''y'',
       durationMs = 300, attempt_id = ''i2'', createdAt = 2\<rparr>,
      \<lparr>user = ''w'', problemId = ''p1'', wpm = 40, accuracy = 95, rawText = ''x'',
       durationMs = 300, attempt_id = ''i3'', createdAt = 3\<rparr>,
      \<lparr>user = ''z'', problemId = ''p1'', wpm = 55, accuracy = 70, rawText = ''x'',
       durationMs = 300, attempt_id = ''i4'', createdAt = 4\<rparr>]) = [''i4'', ''i3'', ''i1'']"
    by (simp add: leaderboard_def truthy_str_def compare_attempts_def)
  show ?thesis
    using leaderboard_top50 [OF 1] 1 2 by blast
qed

end
